theory Spec2Isabelle
  imports Main "HOL-Library.Sublist"
begin

section \<open>Python strings\<close>

text \<open>
  A Python \<^verbatim>\<open>str\<close> is a sequence of Unicode code points. Two of the characters
  the importer handles (the pilcrow U+00B6 and the replacement character U+FFFD) lie
  outside ASCII, so a string is modelled as the list of its code points.
\<close>

type_synonym pystr = "nat list"

text \<open>A literal of ASCII characters, as code points.\<close>

abbreviation ustr :: "string \<Rightarrow> pystr" where
  "ustr s \<equiv> map of_char s"

text \<open>
  \<^verbatim>\<open>str.isspace\<close> for one character, which is also the set \<^verbatim>\<open>str.strip()\<close>
  removes: U+0009..U+000D, U+001C..U+0020, U+0085, U+00A0, U+1680, U+2000..U+200A,
  U+2028, U+2029, U+202F, U+205F, U+3000.
\<close>

definition py_isspace :: "nat \<Rightarrow> bool" where
  "py_isspace c =
     ((9 \<le> c \<and> c \<le> 13) \<or> (28 \<le> c \<and> c \<le> 32) \<or> c = 133 \<or> c = 160 \<or> c = 5760 \<or>
      (8192 \<le> c \<and> c \<le> 8202) \<or> c = 8232 \<or> c = 8233 \<or> c = 8239 \<or> c = 8287 \<or>
      c = 12288)"

text \<open>
  \<^verbatim>\<open>s.replace(old, new)\<close>: the occurrences of \<open>old\<close> are found from the left and do
  not overlap. With an empty \<open>old\<close> Python puts \<open>new\<close> before every character and at
  the end.
\<close>

function replace :: "pystr \<Rightarrow> pystr \<Rightarrow> pystr \<Rightarrow> pystr" where
  "replace old new [] = (if old = [] then new else [])"
| "replace old new (c # cs) =
     (if old = [] then new @ c # replace old new cs
      else if prefix old (c # cs) then new @ replace old new (drop (length old) (c # cs))
      else c # replace old new cs)"
  by pat_completeness auto
termination
  by (relation "measure (\<lambda>(old, new, s). length s)") auto

text \<open>\<^verbatim>\<open>s.strip()\<close>: leading and trailing whitespace removed.\<close>

definition strip :: "pystr \<Rightarrow> pystr" where
  "strip s = rev (dropWhile py_isspace (rev (dropWhile py_isspace s)))"

section \<open>The text normalizer\<close>

text \<open>
  \<^verbatim>\<open>clean_text(text)\<close>. \<open>None\<close> is Python's \<^verbatim>\<open>None\<close>; \<^verbatim>\<open>not text\<close> holds for
  \<^verbatim>\<open>None\<close> and for the empty string. The code points: 182 pilcrow, 11 vertical tab,
  13 carriage return, 10 line feed, 65533 replacement character, 34 double quote.
\<close>

definition clean_text :: "pystr option \<Rightarrow> pystr option" where
  "clean_text text =
     (case text of
        None \<Rightarrow> None
      | Some t0 \<Rightarrow>
          if t0 = [] then None
          else
            let t1 = replace [182] [10] t0;
                t2 = replace [11] [10] t1;
                t3 = replace [13, 10] [10] t2;
                t4 = replace [13] [10] t3;
                t5 = replace [65533] [34] t4;
                t6 = strip t5
            in if t6 \<noteq> [] then Some t6 else None)"

section \<open>Python's integer conversion and digit test\<close>

text \<open>
  The exceptions the loop bodies can meet: \<^verbatim>\<open>ValueError\<close> from \<^verbatim>\<open>int()\<close>, and
  \<^verbatim>\<open>OverflowError\<close> from the database binding (see \<open>execute_insert\<close> below).
\<close>

datatype exn = ValueError | OverflowError

text \<open>
  The text of such an exception, which the handlers print:
  \<^item> \<open>Invalid_literal x\<close>: "invalid literal for int() with base 10: " followed by the
    argument \<open>x\<close> in quotes (its \<^verbatim>\<open>repr\<close>, cut after 200 characters);
  \<^item> \<open>Exceeds_digit_limit n\<close>: "Exceeds the limit (4300 digits) for integer string
    conversion: value has n digits; ...";
  \<^item> \<open>Int_too_large\<close>: "Python int too large to convert to SQLite INTEGER".
\<close>

datatype message = Invalid_literal pystr | Exceeds_digit_limit nat | Int_too_large

text \<open>
  The Unicode decimal digits (General Category Nd, Unicode 14 as in CPython 3.11) come in
  runs of ten, zero first; the list holds the code point of each run's zero.
\<close>

definition decimal_zeros :: "nat list" where
  "decimal_zeros =
    [48, 1632, 1776, 1984, 2406, 2534, 2662, 2790, 2918, 3046, 3174, 3302, 3430, 3558,
     3664, 3792, 3872, 4160, 4240, 6112, 6160, 6470, 6608, 6784, 6800, 6992, 7088, 7232,
     7248, 42528, 43216, 43264, 43472, 43504, 43600, 44016, 65296, 66720, 68912, 69734,
     69872, 69942, 70096, 70384, 70736, 70864, 71248, 71360, 71472, 71904, 72016, 72784,
     73040, 73120, 92768, 92864, 93008, 120782, 120792, 120802, 120812, 120822, 123200,
     123632, 125264, 130032]"

definition py_decimal :: "nat \<Rightarrow> nat option" where
  "py_decimal c = map_option (\<lambda>z. c - z) (find (\<lambda>z. z \<le> c \<and> c < z + 10) decimal_zeros)"

text \<open>
  \<^verbatim>\<open>int(s)\<close> for a string, base ten. CPython first maps every Unicode decimal digit to
  its ASCII digit and every non-ASCII whitespace character to a space (any other
  non-ASCII character becomes \<^verbatim>\<open>?\<close>, which no literal contains). The literal is then:
  ASCII whitespace (U+0009..U+000D, space), an optional sign, digits with single
  underscores between them, ASCII whitespace. More than 4300 digits are refused
  (the interpreter's default limit). Everything else raises \<^verbatim>\<open>ValueError\<close>.
  Code points: 32 space, 43 plus, 45 minus, 48..57 the digits, 63 question mark,
  95 underscore.
\<close>

definition to_ascii :: "nat \<Rightarrow> nat" where
  "to_ascii c =
     (if c < 127 then c
      else if py_isspace c then 32
      else case py_decimal c of Some d \<Rightarrow> 48 + d | None \<Rightarrow> 63)"

definition c_isspace :: "nat \<Rightarrow> bool" where
  "c_isspace c = ((9 \<le> c \<and> c \<le> 13) \<or> c = 32)"

definition c_isdigit :: "nat \<Rightarrow> bool" where
  "c_isdigit c = (48 \<le> c \<and> c \<le> 57)"

fun adjacent_underscores :: "pystr \<Rightarrow> bool" where
  "adjacent_underscores (a # b # cs) = ((a = 95 \<and> b = 95) \<or> adjacent_underscores (b # cs))"
| "adjacent_underscores _ = False"

definition digits_value :: "pystr \<Rightarrow> nat" where
  "digits_value ds = foldl (\<lambda>a c. 10 * a + (c - 48)) 0 ds"

definition py_int :: "pystr \<Rightarrow> exn + int" where
  "py_int s =
     (let t = dropWhile c_isspace (map to_ascii s);
          negative = (t \<noteq> [] \<and> hd t = 45);
          body = (if t \<noteq> [] \<and> (hd t = 43 \<or> hd t = 45) then tl t else t);
          lit = takeWhile (\<lambda>c. c_isdigit c \<or> c = 95) body;
          rest = dropWhile (\<lambda>c. c_isdigit c \<or> c = 95) body;
          ds = filter c_isdigit lit
      in if lit = [] \<or> hd lit = 95 \<or> last lit = 95 \<or> adjacent_underscores lit \<or>
            4300 < length ds \<or> dropWhile c_isspace rest \<noteq> []
         then Inl ValueError
         else Inr (if negative then - int (digits_value ds) else int (digits_value ds)))"

text \<open>
  The text of the \<^verbatim>\<open>ValueError\<close> that \<^verbatim>\<open>int(s)\<close> raises. The digits are counted once the
  literal has been scanned, before what follows the literal is looked at: a well-formed
  literal of more than 4300 digits gives the text about the limit, everything else the
  text that quotes the argument.
\<close>

definition py_int_message :: "pystr \<Rightarrow> message" where
  "py_int_message s =
     (let t = dropWhile c_isspace (map to_ascii s);
          body = (if t \<noteq> [] \<and> (hd t = 43 \<or> hd t = 45) then tl t else t);
          lit = takeWhile (\<lambda>c. c_isdigit c \<or> c = 95) body;
          ds = filter c_isdigit lit
      in if lit \<noteq> [] \<and> hd lit \<noteq> 95 \<and> last lit \<noteq> 95 \<and> \<not> adjacent_underscores lit \<and>
            4300 < length ds
         then Exceeds_digit_limit (length ds)
         else Invalid_literal s)"

text \<open>
  \<^verbatim>\<open>s.isdigit()\<close>: the string is not empty and every character has the Unicode property
  Numeric_Type Digit or Decimal (the decimal digits, and superscripts, circled digits and
  the like). The table lists the ranges, both ends included.
\<close>

definition digit_ranges :: "(nat \<times> nat) list" where
  "digit_ranges =
    [(48, 57), (178, 179), (185, 185), (1632, 1641), (1776, 1785), (1984, 1993),
     (2406, 2415), (2534, 2543), (2662, 2671), (2790, 2799), (2918, 2927), (3046, 3055),
     (3174, 3183), (3302, 3311), (3430, 3439), (3558, 3567), (3664, 3673), (3792, 3801),
     (3872, 3881), (4160, 4169), (4240, 4249), (4969, 4977), (6112, 6121), (6160, 6169),
     (6470, 6479), (6608, 6618), (6784, 6793), (6800, 6809), (6992, 7001), (7088, 7097),
     (7232, 7241), (7248, 7257), (8304, 8304), (8308, 8313), (8320, 8329), (9312, 9320),
     (9332, 9340), (9352, 9360), (9450, 9450), (9461, 9469), (9471, 9471), (10102, 10110),
     (10112, 10120), (10122, 10130), (42528, 42537), (43216, 43225), (43264, 43273),
     (43472, 43481), (43504, 43513), (43600, 43609), (44016, 44025), (65296, 65305),
     (66720, 66729), (68160, 68163), (68912, 68921), (69216, 69224), (69714, 69722),
     (69734, 69743), (69872, 69881), (69942, 69951), (70096, 70105), (70384, 70393),
     (70736, 70745), (70864, 70873), (71248, 71257), (71360, 71369), (71472, 71481),
     (71904, 71913), (72016, 72025), (72784, 72793), (73040, 73049), (73120, 73129),
     (92768, 92777), (92864, 92873), (93008, 93017), (120782, 120831), (123200, 123209),
     (123632, 123641), (125264, 125273), (127232, 127242), (130032, 130041)]"

definition isdigit :: "pystr \<Rightarrow> bool" where
  "isdigit s = (s \<noteq> [] \<and> list_all (\<lambda>c. list_ex (\<lambda>(lo, hi). lo \<le> c \<and> c \<le> hi) digit_ranges) s)"

text \<open>
  The expression \<^verbatim>\<open>int(x) if x else None\<close> that reads every identity column, and
  Python's truth value of its result: \<^verbatim>\<open>None\<close> and \<open>0\<close> are false. A raised exception
  is the pair of its class and its text.
\<close>

definition int_or_none :: "pystr \<Rightarrow> (exn \<times> message) + int option" where
  "int_or_none x =
     (if x \<noteq> []
      then case py_int x of Inl e \<Rightarrow> Inl (e, py_int_message x) | Inr n \<Rightarrow> Inr (Some n)
      else Inr None)"

definition truthy :: "int option \<Rightarrow> bool" where
  "truthy v = (case v of None \<Rightarrow> False | Some n \<Rightarrow> n \<noteq> 0)"

section \<open>The store\<close>

text \<open>
  A table is the list of its rows in the order of insertion. Python's \<^verbatim>\<open>None\<close> in a
  nullable column is \<open>None\<close>. The column names are those of the
  \<^verbatim>\<open>INSERT\<close> statements, prefixed with the table.
\<close>

record item_row =
  item_id :: int
  item_word :: pystr
  item_type :: pystr
  item_definition :: "pystr option"
  item_derivation :: "pystr option"
  item_appendicies :: "pystr option"
  item_source :: "pystr option"
  item_source_pg :: "pystr option"
  item_mark :: "pystr option"
  item_modified_at :: pystr

record link_row =
  link_id :: int
  link_source_item_id :: int
  link_destination_item_id :: int
  link_type :: pystr

record cliche_row =
  cliche_id :: int
  cliche_phrase :: pystr
  cliche_definition :: "pystr option"

record name_row =
  name_id :: int
  name_name :: pystr
  name_type :: "pystr option"
  name_gender :: "pystr option"
  name_description :: "pystr option"
  name_notes :: "pystr option"

record term_row =
  term_id :: int
  term_term :: pystr
  term_type :: "pystr option"
  term_definition :: "pystr option"
  term_examples :: "pystr option"
  term_notes :: "pystr option"

record source_row =
  source_id :: int
  source_title :: pystr
  source_author :: "pystr option"
  source_notes :: "pystr option"

text \<open>
  Modelled from the spec: \<^verbatim>\<open>schema.sql\<close> is not among the sources. The spec says that
  the identity is unique within its entity kind and that an insert whose identity is
  already stored is a no-op, neither an overwrite nor an error; so the identity column
  \<open>key\<close> is taken as the primary key of its table and as its only constraint, and
  \<^verbatim>\<open>INSERT OR IGNORE\<close> appends the row unless a row with that key is stored.
\<close>

definition insert_or_ignore :: "('r \<Rightarrow> int) \<Rightarrow> 'r \<Rightarrow> 'r list \<Rightarrow> 'r list" where
  "insert_or_ignore key r t = (if key r \<in> set (map key t) then t else t @ [r])"

text \<open>
  \<^verbatim>\<open>cursor.execute\<close> of such an insert. The binding of Python's \<^verbatim>\<open>sqlite3\<close> stores an
  \<^verbatim>\<open>int\<close> as a signed 64-bit integer and raises \<^verbatim>\<open>OverflowError\<close> for one outside that
  range; \<open>ints\<close> are the integer parameters of the statement.
\<close>

definition sqlite_int :: "int \<Rightarrow> bool" where
  "sqlite_int n = (- (2 ^ 63) \<le> n \<and> n < 2 ^ 63)"

definition execute_insert ::
  "('r \<Rightarrow> int) \<Rightarrow> int list \<Rightarrow> 'r \<Rightarrow> 'r list \<Rightarrow> (exn \<times> message) + 'r list" where
  "execute_insert key ints r t =
     (if list_all sqlite_int ints then Inr (insert_or_ignore key r t)
      else Inl (OverflowError, Int_too_large))"

section \<open>The import loops\<close>

text \<open>
  What a loop prints for a row, one constructor for each \<^verbatim>\<open>print\<close> inside the loops:
  \<^item> \<open>Skipping_insufficient_columns n\<close>: "Skipping row with insufficient columns: n";
  \<^item> \<open>Skipping_missing_ID\<close>: "Skipping row with missing ID";
  \<^item> \<open>Error_importing e m\<close>: "Error importing item: " followed by the text \<open>m\<close> of
    the exception of class \<open>e\<close> (and the same line of the other five loops);
  \<^item> \<open>Row_data fields\<close>: "Row data: row[:3]...";
  \<^item> \<open>Skipping_invalid_ID row\<close>: "Skipping row with invalid ID: row".
\<close>

datatype event =
    Skipping_insufficient_columns nat
  | Skipping_missing_ID
  | Error_importing exn message
  | Row_data "pystr list"
  | Skipping_invalid_ID "pystr list"

text \<open>
  The state a loop works on: the table behind \<^verbatim>\<open>conn\<close>, the local counters \<^verbatim>\<open>count\<close>
  and \<^verbatim>\<open>errors\<close> (\<^verbatim>\<open>skipped\<close> in \<^verbatim>\<open>import_links\<close>), and the lines printed so far. A
  loop over the rows the CSV reader yields is a left fold of its body; the import
  functions return the state after the loop (the header line, the summary line and the
  commit are left out; the summary prints \<open>count\<close> and \<open>errors\<close>). A function
  whose input file does not exist returns before the loop; the functions below are the
  runs on an existing file, given by its rows.
\<close>

record 'r import_state =
  table :: "'r list"
  count :: nat
  errors :: nat
  printed :: "event list"

definition start :: "'r list \<Rightarrow> 'r import_state" where
  "start conn = \<lparr>table = conn, count = 0, errors = 0, printed = []\<rparr>"

subsection \<open>Items\<close>

text \<open>
  The parameter tuple of the insert in \<^verbatim>\<open>import_items\<close>; \<open>now\<close> is what
  \<^verbatim>\<open>datetime.now().isoformat()\<close> would return for this row.
\<close>

definition items_values :: "pystr \<Rightarrow> int \<Rightarrow> pystr list \<Rightarrow> item_row" where
  "items_values now iid row =
     \<lparr>item_id = iid,
      item_word = (if length row > 1 then row ! 1 else []),
      item_type = (if length row > 2 then row ! 2 else ustr ''Reference''),
      item_definition = (if length row > 3 then clean_text (Some (row ! 3)) else None),
      item_derivation = (if length row > 4 then clean_text (Some (row ! 4)) else None),
      item_appendicies = (if length row > 5 then clean_text (Some (row ! 5)) else None),
      item_source = (if length row > 6 then Some (row ! 6) else None),
      item_source_pg = (if length row > 7 then Some (row ! 7) else None),
      item_mark = (if length row > 8 then Some (row ! 8) else None),
      item_modified_at = (if length row > 9 then row ! 9 else now)\<rparr>"

text \<open>
  The \<^verbatim>\<open>try\<close> block of the loop body: \<open>Inl (e, m)\<close> when it raises \<open>e\<close> with the
  text \<open>m\<close> (nothing has been changed by then), \<open>Inr st'\<close> when it ends normally or
  with \<^verbatim>\<open>continue\<close>.
\<close>

definition items_try :: "pystr \<Rightarrow> item_row import_state \<Rightarrow> pystr list \<Rightarrow> (exn \<times> message) + item_row import_state" where
  "items_try now st row =
     (if length row < 10
      then Inr (st\<lparr>printed := printed st @ [Skipping_insufficient_columns (length row)],
                   errors := errors st + 1\<rparr>)
      else case int_or_none (row ! 0) of
             Inl e \<Rightarrow> Inl e
           | Inr iid \<Rightarrow>
               if \<not> truthy iid
               then Inr (st\<lparr>printed := printed st @ [Skipping_missing_ID],
                            errors := errors st + 1\<rparr>)
               else case execute_insert item_id [the iid] (items_values now (the iid) row) (table st) of
                      Inl e \<Rightarrow> Inl e
                    | Inr t \<Rightarrow> Inr (st\<lparr>table := t, count := count st + 1\<rparr>))"

text \<open>The loop body with its \<^verbatim>\<open>except Exception\<close> handler.\<close>

definition items_row :: "pystr \<Rightarrow> item_row import_state \<Rightarrow> pystr list \<Rightarrow> item_row import_state" where
  "items_row now st row =
     (case items_try now st row of
        Inr st' \<Rightarrow> st'
      | Inl (e, m) \<Rightarrow>
          let st1 = st\<lparr>printed := printed st @ [Error_importing e m], errors := errors st + 1\<rparr>
          in if errors st1 < 5 then st1\<lparr>printed := printed st1 @ [Row_data (take 3 row)]\<rparr>
             else st1)"

text \<open>
  The loop; \<open>clock i\<close> is the time string the clock would give while row \<open>i\<close> is
  handled.
\<close>

fun items_loop :: "(nat \<Rightarrow> pystr) \<Rightarrow> nat \<Rightarrow> item_row import_state \<Rightarrow> pystr list list \<Rightarrow> item_row import_state" where
  "items_loop clock i st [] = st"
| "items_loop clock i st (row # rows) = items_loop clock (Suc i) (items_row (clock i) st row) rows"

definition import_items :: "(nat \<Rightarrow> pystr) \<Rightarrow> item_row list \<Rightarrow> pystr list list \<Rightarrow> item_row import_state" where
  "import_items clock conn rows = items_loop clock 0 (start conn) rows"

subsection \<open>Links\<close>

definition links_try :: "link_row import_state \<Rightarrow> pystr list \<Rightarrow> (exn \<times> message) + link_row import_state" where
  "links_try st row =
     (if length row < 3 then Inr (st\<lparr>errors := errors st + 1\<rparr>)
      else case int_or_none (row ! 0) of
             Inl e \<Rightarrow> Inl e
           | Inr lid \<Rightarrow>
               case int_or_none (row ! 1) of
                 Inl e \<Rightarrow> Inl e
               | Inr sid \<Rightarrow>
                   case int_or_none (row ! 2) of
                     Inl e \<Rightarrow> Inl e
                   | Inr did \<Rightarrow>
                       if truthy lid \<and> truthy sid \<and> truthy did
                       then case execute_insert link_id [the lid, the sid, the did]
                                   \<lparr>link_id = the lid, link_source_item_id = the sid,
                                    link_destination_item_id = the did,
                                    link_type = ustr ''related''\<rparr> (table st) of
                              Inl e \<Rightarrow> Inl e
                            | Inr t \<Rightarrow> Inr (st\<lparr>table := t, count := count st + 1\<rparr>)
                       else Inr (st\<lparr>errors := errors st + 1\<rparr>))"

definition links_row :: "link_row import_state \<Rightarrow> pystr list \<Rightarrow> link_row import_state" where
  "links_row st row =
     (case links_try st row of
        Inr st' \<Rightarrow> st'
      | Inl (e, m) \<Rightarrow>
          st\<lparr>printed := printed st @ [Error_importing e m], errors := errors st + 1\<rparr>)"

definition import_links :: "link_row list \<Rightarrow> pystr list list \<Rightarrow> link_row import_state" where
  "import_links conn rows = foldl links_row (start conn) rows"

subsection \<open>Cliches\<close>

definition cliches_values :: "int \<Rightarrow> pystr list \<Rightarrow> cliche_row" where
  "cliches_values cid row =
     \<lparr>cliche_id = cid,
      cliche_phrase = (if length row > 1 then row ! 1 else []),
      cliche_definition = (if length row > 2 then clean_text (Some (row ! 2)) else None)\<rparr>"

definition cliches_try :: "cliche_row import_state \<Rightarrow> pystr list \<Rightarrow> (exn \<times> message) + cliche_row import_state" where
  "cliches_try st row =
     (if length row < 2 then Inr (st\<lparr>errors := errors st + 1\<rparr>)
      else case int_or_none (row ! 0) of
             Inl e \<Rightarrow> Inl e
           | Inr cid \<Rightarrow>
               if \<not> truthy cid then Inr (st\<lparr>errors := errors st + 1\<rparr>)
               else case execute_insert cliche_id [the cid] (cliches_values (the cid) row) (table st) of
                      Inl e \<Rightarrow> Inl e
                    | Inr t \<Rightarrow> Inr (st\<lparr>table := t, count := count st + 1\<rparr>))"

definition cliches_row :: "cliche_row import_state \<Rightarrow> pystr list \<Rightarrow> cliche_row import_state" where
  "cliches_row st row =
     (case cliches_try st row of
        Inr st' \<Rightarrow> st'
      | Inl (e, m) \<Rightarrow>
          st\<lparr>printed := printed st @ [Error_importing e m], errors := errors st + 1\<rparr>)"

definition import_cliches :: "cliche_row list \<Rightarrow> pystr list list \<Rightarrow> cliche_row import_state" where
  "import_cliches conn rows = foldl cliches_row (start conn) rows"

subsection \<open>Names\<close>

definition names_values :: "int \<Rightarrow> pystr list \<Rightarrow> name_row" where
  "names_values nid row =
     \<lparr>name_id = nid,
      name_name = (if length row > 1 then row ! 1 else []),
      name_type = (if length row > 2 then Some (row ! 2) else None),
      name_gender = (if length row > 3 then Some (row ! 3) else None),
      name_description = None,
      name_notes = None\<rparr>"

text \<open>The rest of the \<^verbatim>\<open>try\<close> block once \<^verbatim>\<open>name_id\<close> has its value.\<close>

definition names_insert :: "name_row import_state \<Rightarrow> pystr list \<Rightarrow> int option \<Rightarrow> (exn \<times> message) + name_row import_state" where
  "names_insert st row nid =
     (if \<not> truthy nid then Inr (st\<lparr>errors := errors st + 1\<rparr>)
      else case execute_insert name_id [the nid] (names_values (the nid) row) (table st) of
             Inl e \<Rightarrow> Inl e
           | Inr t \<Rightarrow> Inr (st\<lparr>table := t, count := count st + 1\<rparr>))"

text \<open>
  The outer \<^verbatim>\<open>try\<close> block. The inner \<^verbatim>\<open>except ValueError\<close> catches only a
  \<^verbatim>\<open>ValueError\<close> of the first conversion; what \<^verbatim>\<open>int(row[2])\<close> raises inside that
  handler goes to the outer handler.
\<close>

definition names_try :: "name_row import_state \<Rightarrow> pystr list \<Rightarrow> (exn \<times> message) + name_row import_state" where
  "names_try st row =
     (if length row < 2 then Inr (st\<lparr>errors := errors st + 1\<rparr>)
      else case int_or_none (row ! 0) of
             Inr nid \<Rightarrow> names_insert st row nid
           | Inl (ValueError, m) \<Rightarrow>
               if length row > 2 \<and> isdigit (row ! 2)
               then case py_int (row ! 2) of
                      Inl e \<Rightarrow> Inl (e, py_int_message (row ! 2))
                    | Inr n \<Rightarrow> names_insert st row (Some n)
               else Inr (st\<lparr>printed := printed st @ [Skipping_invalid_ID row],
                            errors := errors st + 1\<rparr>)
           | Inl (e, m) \<Rightarrow> Inl (e, m))"

definition names_row :: "name_row import_state \<Rightarrow> pystr list \<Rightarrow> name_row import_state" where
  "names_row st row =
     (case names_try st row of
        Inr st' \<Rightarrow> st'
      | Inl (e, m) \<Rightarrow>
          st\<lparr>printed := printed st @ [Error_importing e m], errors := errors st + 1\<rparr>)"

definition import_names :: "name_row list \<Rightarrow> pystr list list \<Rightarrow> name_row import_state" where
  "import_names conn rows = foldl names_row (start conn) rows"

subsection \<open>Literary terms\<close>

definition literary_terms_values :: "int \<Rightarrow> pystr list \<Rightarrow> term_row" where
  "literary_terms_values tid row =
     \<lparr>term_id = tid,
      term_term = (if length row > 1 then row ! 1 else []),
      term_type = None,
      term_definition = (if length row > 2 then clean_text (Some (row ! 2)) else None),
      term_examples = (if length row > 3 then clean_text (Some (row ! 3)) else None),
      term_notes = (if length row > 4 then clean_text (Some (row ! 4)) else None)\<rparr>"

definition literary_terms_try :: "term_row import_state \<Rightarrow> pystr list \<Rightarrow> (exn \<times> message) + term_row import_state" where
  "literary_terms_try st row =
     (if length row < 2 then Inr (st\<lparr>errors := errors st + 1\<rparr>)
      else case int_or_none (row ! 0) of
             Inl e \<Rightarrow> Inl e
           | Inr tid \<Rightarrow>
               if \<not> truthy tid then Inr (st\<lparr>errors := errors st + 1\<rparr>)
               else case execute_insert term_id [the tid] (literary_terms_values (the tid) row) (table st) of
                      Inl e \<Rightarrow> Inl e
                    | Inr t \<Rightarrow> Inr (st\<lparr>table := t, count := count st + 1\<rparr>))"

definition literary_terms_row :: "term_row import_state \<Rightarrow> pystr list \<Rightarrow> term_row import_state" where
  "literary_terms_row st row =
     (case literary_terms_try st row of
        Inr st' \<Rightarrow> st'
      | Inl (e, m) \<Rightarrow>
          st\<lparr>printed := printed st @ [Error_importing e m], errors := errors st + 1\<rparr>)"

definition import_literary_terms :: "term_row list \<Rightarrow> pystr list list \<Rightarrow> term_row import_state" where
  "import_literary_terms conn rows = foldl literary_terms_row (start conn) rows"

subsection \<open>Sources\<close>

text \<open>The loop of \<^verbatim>\<open>import_sources\<close> also carries the local variable \<^verbatim>\<open>source_id\<close>.\<close>

record sources_state = "source_row import_state" +
  next_source_id :: int

text \<open>The local variables \<^verbatim>\<open>title\<close> and \<^verbatim>\<open>author\<close>, and the parameter tuple of the insert.\<close>

definition sources_title :: "pystr list \<Rightarrow> pystr" where
  "sources_title row =
     (if length row > 2 then row ! 2 else if length row > 1 then row ! 1 else [])"

definition sources_author :: "pystr list \<Rightarrow> pystr option" where
  "sources_author row = (if row ! 0 \<noteq> [] then Some (row ! 0) else None)"

definition sources_values :: "int \<Rightarrow> pystr list \<Rightarrow> source_row" where
  "sources_values sid row =
     \<lparr>source_id = sid,
      source_title = sources_title row,
      source_author = sources_author row,
      source_notes = (if length row > 1 then Some (row ! 1) else None)\<rparr>"

definition sources_try :: "sources_state \<Rightarrow> pystr list \<Rightarrow> (exn \<times> message) + sources_state" where
  "sources_try st row =
     (if length row < 2 then Inr (st\<lparr>errors := errors st + 1\<rparr>)
      else if sources_title row = [] then Inr (st\<lparr>errors := errors st + 1\<rparr>)
      else case execute_insert source_id [next_source_id st]
                  (sources_values (next_source_id st) row) (table st) of
             Inl e \<Rightarrow> Inl e
           | Inr t \<Rightarrow>
               Inr (st\<lparr>table := t, next_source_id := next_source_id st + 1,
                       count := count st + 1\<rparr>))"

definition sources_row :: "sources_state \<Rightarrow> pystr list \<Rightarrow> sources_state" where
  "sources_row st row =
     (case sources_try st row of
        Inr st' \<Rightarrow> st'
      | Inl (e, m) \<Rightarrow>
          st\<lparr>printed := printed st @ [Error_importing e m], errors := errors st + 1\<rparr>)"

definition import_sources :: "source_row list \<Rightarrow> pystr list list \<Rightarrow> sources_state" where
  "import_sources conn rows =
     foldl sources_row
       \<lparr>table = conn, count = 0, errors = 0, printed = [], next_source_id = 1000\<rparr> rows"

section \<open>Notions the claims are stated with\<close>

text \<open>
  What the body of a loop inserts for a row when the table is empty: no row, or the one
  row of the insert it reaches.
\<close>

definition inserts :: "('r import_state \<Rightarrow> pystr list \<Rightarrow> 'r import_state) \<Rightarrow> pystr list \<Rightarrow> 'r list" where
  "inserts body row = table (body (start []) row)"


text \<open>
  The source rows \<open>rows\<close> with the identities \<open>n\<close>, \<open>n + 1\<close>, ... in the order of
  the input.
\<close>

fun number_from :: "int \<Rightarrow> pystr list list \<Rightarrow> source_row list" where
  "number_from n [] = []"
| "number_from n (row # rows) = sources_values n row # number_from (n + 1) rows"







text \<open>
  The printed lines that show a field of the row: the first fields after "Row data", the
  whole row after "Skipping row with invalid ID", and the argument of \<^verbatim>\<open>int\<close> that the
  text of an invalid-literal error quotes. \<open>is_row_data\<close> singles out the first kind.
\<close>

fun quotes_field :: "message \<Rightarrow> bool" where
  "quotes_field (Invalid_literal x) = True"
| "quotes_field m = False"

fun shows_row :: "event \<Rightarrow> bool" where
  "shows_row (Row_data fs) = True"
| "shows_row (Skipping_invalid_ID row) = True"
| "shows_row (Error_importing e m) = quotes_field m"
| "shows_row ev = False"

fun is_row_data :: "event \<Rightarrow> bool" where
  "is_row_data (Row_data fs) = True"
| "is_row_data ev = False"

text \<open>
  An identity column on which \<^verbatim>\<open>int(x) if x else None\<close> raises, and the line the handler
  then prints when its text quotes the column.
\<close>

definition raises :: "pystr \<Rightarrow> bool" where
  "raises x = (x \<noteq> [] \<and> py_int x = Inl ValueError)"

definition quoted :: "pystr \<Rightarrow> event list" where
  "quoted x =
     (if raises x \<and> quotes_field (py_int_message x)
      then [Error_importing ValueError (py_int_message x)]
      else [])"

text \<open>
  The lines other than "Row data" that show a field of the row, for one input row of each
  kind, as a function of the input alone. In a link row the first column that raises
  ends the \<^verbatim>\<open>try\<close> block.
\<close>

definition items_shown :: "pystr list \<Rightarrow> event list" where
  "items_shown row = (if 10 \<le> length row then quoted (row ! 0) else [])"

definition links_shown :: "pystr list \<Rightarrow> event list" where
  "links_shown row =
     (if 3 \<le> length row
      then case find raises (take 3 row) of None \<Rightarrow> [] | Some x \<Rightarrow> quoted x
      else [])"

definition cliches_shown :: "pystr list \<Rightarrow> event list" where
  "cliches_shown row = (if 2 \<le> length row then quoted (row ! 0) else [])"

definition names_shown :: "pystr list \<Rightarrow> event list" where
  "names_shown row =
     (if 2 \<le> length row \<and> raises (row ! 0)
      then if 2 < length row \<and> isdigit (row ! 2) then quoted (row ! 2)
           else [Skipping_invalid_ID row]
      else [])"

definition literary_terms_shown :: "pystr list \<Rightarrow> event list" where
  "literary_terms_shown row = (if 2 \<le> length row then quoted (row ! 0) else [])"

section \<open>Properties of the string operations\<close>

lemma set_replace: "set (replace old new s) \<subseteq> set s \<union> set new"
proof (induction old new s rule: replace.induct)
  case (1 old new)
  then show ?case by auto
next
  case (2 old new c cs)
  have "set (drop (length old) (c # cs)) \<subseteq> set (c # cs)"
    by (rule set_drop_subset)
  with 2 show ?case by (auto split: if_splits)
qed

lemma replace_char_absent: "c \<notin> set new \<Longrightarrow> c \<notin> set (replace [c] new s)"
proof (induction s)
  case Nil
  then show ?case by simp
next
  case (Cons a s)
  then show ?case by (cases "a = c") auto
qed

lemma replace_id: "old \<noteq> [] \<Longrightarrow> hd old \<notin> set s \<Longrightarrow> replace old new s = s"
proof (induction s)
  case Nil
  then show ?case by simp
next
  case (Cons a s)
  then have "\<not> prefix old (a # s)"
    by (cases old) auto
  with Cons show ?case by simp
qed

lemma set_strip: "set (strip s) \<subseteq> set s"
proof -
  have "set (strip s) \<subseteq> set (rev (dropWhile py_isspace s))"
    unfolding strip_def using set_dropWhileD by fastforce
  also have "\<dots> \<subseteq> set s"
    using set_dropWhileD by fastforce
  finally show ?thesis .
qed

lemma dropWhile_fix: "xs = [] \<or> \<not> P (hd xs) \<Longrightarrow> dropWhile P xs = xs"
  by (cases xs) auto

lemma dropWhile_nonempty: "dropWhile P xs \<noteq> [] \<Longrightarrow> xs \<noteq> []"
  by (cases xs) simp_all

lemma last_dropWhile: "dropWhile P xs \<noteq> [] \<Longrightarrow> last (dropWhile P xs) = last xs"
  by (induction xs) (auto split: if_splits)

lemma strip_fix:
  assumes "s = [] \<or> (\<not> py_isspace (hd s) \<and> \<not> py_isspace (last s))"
  shows "strip s = s"
proof (cases "s = []")
  case True
  then show ?thesis by (simp add: strip_def)
next
  case False
  with assms have h: "\<not> py_isspace (hd s)" and l: "\<not> py_isspace (last s)" by auto
  have 1: "dropWhile py_isspace s = s" using h by (simp add: dropWhile_fix)
  have "hd (rev s) = last s" using False by (simp add: hd_rev)
  then have 2: "dropWhile py_isspace (rev s) = rev s" using l by (simp add: dropWhile_fix)
  show ?thesis by (simp add: strip_def 1 2)
qed

lemma strip_ends:
  "strip s = [] \<or> (\<not> py_isspace (hd (strip s)) \<and> \<not> py_isspace (last (strip s)))"
proof (cases "strip s = []")
  case True
  then show ?thesis by simp
next
  case False
  let ?t = "dropWhile py_isspace s"
  let ?u = "dropWhile py_isspace (rev ?t)"
  have u: "?u \<noteq> []" using False by (simp add: strip_def)
  have l: "\<not> py_isspace (hd ?u)" using u by (rule hd_dropWhile)
  have last: "last (strip s) = hd ?u" using u by (simp add: strip_def last_rev)
  have t: "?t \<noteq> []" using dropWhile_nonempty [OF u] by simp
  have "hd (strip s) = last ?u" using u by (simp add: strip_def hd_rev)
  also have "\<dots> = last (rev ?t)"
    using u by (rule last_dropWhile)
  also have "\<dots> = hd ?t" using t by (simp add: last_rev)
  finally have "hd (strip s) = hd ?t" .
  moreover have "\<not> py_isspace (hd ?t)" using t by (rule hd_dropWhile)
  ultimately show ?thesis using l last by simp
qed

lemma strip_strip: "strip (strip s) = strip s"
  by (rule strip_fix) (rule strip_ends)

text \<open>The five replacements of \<open>clean_text\<close>, one after the other, as one term.\<close>

lemma clean_text_Some:
  "clean_text (Some t) =
     (if t = [] \<or>
         strip (replace [65533] [34] (replace [13] [10] (replace [13, 10] [10]
           (replace [11] [10] (replace [182] [10] t))))) = []
      then None
      else Some (strip (replace [65533] [34] (replace [13] [10] (replace [13, 10] [10]
           (replace [11] [10] (replace [182] [10] t)))))))"
  by (simp add: clean_text_def Let_def)

text \<open>None of the four replaced characters is left after the replacements.\<close>

lemma replace_keeps_absent:
  "c \<notin> set s \<Longrightarrow> c \<notin> set new \<Longrightarrow> c \<notin> set (replace old new s)"
  using set_replace [of old new s] by auto

lemma replaced_chars_absent:
  fixes t :: pystr
  defines "u \<equiv> replace [65533] [34] (replace [13] [10] (replace [13, 10] [10]
           (replace [11] [10] (replace [182] [10] t))))"
  shows "182 \<notin> set u \<and> 11 \<notin> set u \<and> 13 \<notin> set u \<and> 65533 \<notin> set u"
proof -
  let ?t1 = "replace [182] [10] t"
  let ?t2 = "replace [11] [10] ?t1"
  let ?t3 = "replace [13, 10] [10] ?t2"
  let ?t4 = "replace [13] [10] ?t3"
  have a1: "182 \<notin> set ?t1" by (rule replace_char_absent) simp
  have a2: "11 \<notin> set ?t2" by (rule replace_char_absent) simp
  have a4: "13 \<notin> set ?t4" by (rule replace_char_absent) simp
  have a5: "65533 \<notin> set u" unfolding u_def by (rule replace_char_absent) simp
  have "182 \<notin> set ?t2" using a1 by (rule replace_keeps_absent) simp
  then have "182 \<notin> set ?t3" by (rule replace_keeps_absent) simp
  then have "182 \<notin> set ?t4" by (rule replace_keeps_absent) simp
  then have b1: "182 \<notin> set u" unfolding u_def by (rule replace_keeps_absent) simp
  have "11 \<notin> set ?t3" using a2 by (rule replace_keeps_absent) simp
  then have "11 \<notin> set ?t4" by (rule replace_keeps_absent) simp
  then have b2: "11 \<notin> set u" unfolding u_def by (rule replace_keeps_absent) simp
  have b4: "13 \<notin> set u" unfolding u_def using a4 by (rule replace_keeps_absent) simp
  show ?thesis using b1 b2 b4 a5 by simp
qed

lemma clean_text_fixed:
  assumes "s \<noteq> []" and "strip s = s"
    and "182 \<notin> set s" and "11 \<notin> set s" and "13 \<notin> set s" and "65533 \<notin> set s"
  shows "clean_text (Some s) = Some s"
  using assms by (simp add: clean_text_Some replace_id)

section \<open>The text normalizer: idempotence and the absent marker\<close>

text \<open>
  Claim C5. The normalizer is a total function of its optional text argument, and
  normalising twice gives what normalising once gives: for every input \<open>x\<close>,
  \<open>clean_text (clean_text x) = clean_text x\<close>.
\<close>

theorem clean_text_idempotent: "clean_text (clean_text x) = clean_text x"
proof (cases "clean_text x")
  case None
  then show ?thesis by (simp add: clean_text_def)
next
  case (Some s)
  then obtain t where x: "x = Some t" by (cases x) (simp_all add: clean_text_def)
  let ?u = "replace [65533] [34] (replace [13] [10] (replace [13, 10] [10]
           (replace [11] [10] (replace [182] [10] t))))"
  from Some x have s: "s = strip ?u" and ne: "s \<noteq> []"
    by (auto simp: clean_text_Some split: if_splits)
  have "set s \<subseteq> set ?u" unfolding s by (rule set_strip)
  with replaced_chars_absent [of t]
  have "182 \<notin> set s" "11 \<notin> set s" "13 \<notin> set s" "65533 \<notin> set s" by auto
  moreover have "strip s = s" unfolding s by (rule strip_strip)
  ultimately have "clean_text (Some s) = Some s" using ne by (simp add: clean_text_fixed)
  with Some show ?thesis by simp
qed

text \<open>
  Claim C6. The normalizer never returns the empty string: its result is \<open>None\<close> (the
  absent marker) or a non-empty string. It returns \<open>None\<close> exactly when the input is
  \<open>None\<close>, is the empty string, or is empty after the replacements and the trimming.
\<close>

theorem clean_text_never_empty:
  "clean_text x \<noteq> Some [] \<and>
   clean_text None = None \<and>
   clean_text (Some []) = None \<and>
   (clean_text (Some t) = None \<longleftrightarrow>
      t = [] \<or>
      strip (replace [65533] [34] (replace [13] [10] (replace [13, 10] [10]
        (replace [11] [10] (replace [182] [10] t))))) = [])"
proof -
  have "clean_text x \<noteq> Some []"
    by (cases x) (simp_all add: clean_text_def Let_def)
  moreover have "clean_text None = None" by (simp add: clean_text_def)
  ultimately show ?thesis by (simp add: clean_text_Some)
qed

section \<open>The loop bodies, case by case\<close>

lemma py_int_shape: "\<exists>c v. py_int s = (if c then Inl ValueError else Inr v)"
  unfolding py_int_def Let_def by (intro exI) (rule refl)

lemma py_int_raises: "py_int s = Inl e \<Longrightarrow> e = ValueError"
proof -
  assume a: "py_int s = Inl e"
  obtain c v where "py_int s = (if c then Inl ValueError else Inr v)"
    using py_int_shape by blast
  with a show ?thesis by (cases c) simp_all
qed

lemma py_int_Nil: "py_int [] = Inl ValueError"
  by (simp add: py_int_def)

lemma int_or_none_Inr:
  "int_or_none x = Inr v \<longleftrightarrow> (x = [] \<and> v = None) \<or> (\<exists>n. py_int x = Inr n \<and> v = Some n)"
  by (cases "py_int x") (auto simp: int_or_none_def py_int_Nil)

lemma int_or_none_Inl:
  "int_or_none x = Inl e \<longleftrightarrow> x \<noteq> [] \<and> py_int x = Inl (fst e) \<and> snd e = py_int_message x"
  by (cases "py_int x"; cases e) (auto simp: int_or_none_def)

lemma int_or_none_ok:
  "py_int x = Inr n \<Longrightarrow> int_or_none x = Inr (Some n)"
  by (auto simp: int_or_none_Inr)

text \<open>The reading of one identity column, as a case distinction.\<close>

lemma ident_cases:
  obtains (ok) n where "py_int x = Inr n" "n \<noteq> 0" "int_or_none x = Inr (Some n)"
  | (zero) "py_int x = Inr 0" "int_or_none x = Inr (Some 0)"
  | (empty) "x = []" "int_or_none x = Inr None"
  | (bad) "x \<noteq> []" "py_int x = Inl ValueError"
      "int_or_none x = Inl (ValueError, py_int_message x)"
proof (cases "x = []")
  case True
  then show ?thesis using empty by (simp add: int_or_none_def)
next
  case False
  show ?thesis
  proof (cases "py_int x")
    case (Inl e)
    then have "e = ValueError" by (rule py_int_raises)
    with Inl False show ?thesis using bad by (simp add: int_or_none_def)
  next
    case (Inr n)
    then show ?thesis using ok [of n] zero False by (cases "n = 0") (simp_all add: int_or_none_def)
  qed
qed

lemma insert_or_ignore_Nil: "insert_or_ignore key r [] = [r]"
  by (simp add: insert_or_ignore_def)

lemma cliches_row_accept:
  assumes "2 \<le> length row" "py_int (row ! 0) = Inr n" "n \<noteq> 0" "sqlite_int n"
  shows "cliches_row st row =
           st\<lparr>table := insert_or_ignore cliche_id (cliches_values n row) (table st),
              count := Suc (count st)\<rparr>"
  using assms
  by (simp add: cliches_row_def cliches_try_def int_or_none_ok truthy_def execute_insert_def)

lemma cliches_row_reject:
  assumes "\<not> (2 \<le> length row \<and> (\<exists>n. py_int (row ! 0) = Inr n \<and> n \<noteq> 0 \<and> sqlite_int n))"
  shows "table (cliches_row st row) = table st \<and> count (cliches_row st row) = count st \<and>
         errors (cliches_row st row) = Suc (errors st)"
proof (cases "length row < 2")
  case True
  then show ?thesis by (simp add: cliches_row_def cliches_try_def)
next
  case False
  show ?thesis
  proof (cases "row ! 0" rule: ident_cases)
    case (ok n)
    with assms False have "\<not> sqlite_int n" by auto
    with ok(3) False show ?thesis
      by (simp add: cliches_row_def cliches_try_def truthy_def execute_insert_def)
  next
    case zero
    from zero(2) False show ?thesis
      by (simp add: cliches_row_def cliches_try_def truthy_def)
  next
    case empty
    from empty(2) False show ?thesis
      by (simp add: cliches_row_def cliches_try_def truthy_def)
  next
    case bad
    from bad(3) False show ?thesis
      by (simp add: cliches_row_def cliches_try_def truthy_def)
  qed
qed

lemma literary_terms_row_accept:
  assumes "2 \<le> length row" "py_int (row ! 0) = Inr n" "n \<noteq> 0" "sqlite_int n"
  shows "literary_terms_row st row =
           st\<lparr>table := insert_or_ignore term_id (literary_terms_values n row) (table st),
              count := Suc (count st)\<rparr>"
  using assms
  by (simp add: literary_terms_row_def literary_terms_try_def int_or_none_ok truthy_def
      execute_insert_def)

lemma literary_terms_row_reject:
  assumes "\<not> (2 \<le> length row \<and> (\<exists>n. py_int (row ! 0) = Inr n \<and> n \<noteq> 0 \<and> sqlite_int n))"
  shows "table (literary_terms_row st row) = table st \<and>
         count (literary_terms_row st row) = count st \<and>
         errors (literary_terms_row st row) = Suc (errors st)"
proof (cases "length row < 2")
  case True
  then show ?thesis by (simp add: literary_terms_row_def literary_terms_try_def)
next
  case False
  show ?thesis
  proof (cases "row ! 0" rule: ident_cases)
    case (ok n)
    with assms False have "\<not> sqlite_int n" by auto
    with ok(3) False show ?thesis
      by (simp add: literary_terms_row_def literary_terms_try_def truthy_def execute_insert_def)
  next
    case zero
    from zero(2) False show ?thesis
      by (simp add: literary_terms_row_def literary_terms_try_def truthy_def)
  next
    case empty
    from empty(2) False show ?thesis
      by (simp add: literary_terms_row_def literary_terms_try_def truthy_def)
  next
    case bad
    from bad(3) False show ?thesis
      by (simp add: literary_terms_row_def literary_terms_try_def truthy_def)
  qed
qed

lemma items_row_accept:
  assumes "10 \<le> length row" "py_int (row ! 0) = Inr n" "n \<noteq> 0" "sqlite_int n"
  shows "items_row now st row =
           st\<lparr>table := insert_or_ignore item_id (items_values now n row) (table st),
              count := Suc (count st)\<rparr>"
  using assms
  by (simp add: items_row_def items_try_def int_or_none_ok truthy_def execute_insert_def)

lemma items_row_reject:
  assumes "\<not> (10 \<le> length row \<and> (\<exists>n. py_int (row ! 0) = Inr n \<and> n \<noteq> 0 \<and> sqlite_int n))"
  shows "table (items_row now st row) = table st \<and>
         count (items_row now st row) = count st \<and>
         errors (items_row now st row) = Suc (errors st)"
proof (cases "length row < 10")
  case True
  then show ?thesis by (simp add: items_row_def items_try_def)
next
  case False
  show ?thesis
  proof (cases "row ! 0" rule: ident_cases)
    case (ok n)
    with assms False have "\<not> sqlite_int n" by auto
    with ok(3) False show ?thesis
      by (simp add: items_row_def items_try_def truthy_def execute_insert_def Let_def)
  next
    case zero
    from zero(2) False show ?thesis
      by (simp add: items_row_def items_try_def truthy_def)
  next
    case empty
    from empty(2) False show ?thesis
      by (simp add: items_row_def items_try_def truthy_def)
  next
    case bad
    from bad(3) False show ?thesis
      by (simp add: items_row_def items_try_def truthy_def Let_def)
  qed
qed

lemma int_or_none_truthy:
  "int_or_none x = Inr v \<Longrightarrow> truthy v \<Longrightarrow> py_int x = Inr (the v) \<and> the v \<noteq> 0"
  by (auto simp: int_or_none_Inr truthy_def)

lemma int_or_none_falsy:
  "int_or_none x = Inr v \<Longrightarrow> \<not> truthy v \<Longrightarrow> \<not> (\<exists>n. py_int x = Inr n \<and> n \<noteq> 0)"
  by (auto simp: int_or_none_Inr truthy_def py_int_Nil)

lemma int_or_none_raise:
  "int_or_none x = Inl e \<Longrightarrow> e = (ValueError, py_int_message x) \<and> raises x"
proof -
  assume "int_or_none x = Inl e"
  then have "x \<noteq> []" "py_int x = Inl (fst e)" "snd e = py_int_message x"
    by (simp_all add: int_or_none_Inl)
  moreover from this have "fst e = ValueError" by (intro py_int_raises)
  ultimately show ?thesis by (cases e) (simp add: raises_def)
qed

lemma int_or_none_no_raise: "int_or_none x = Inr v \<Longrightarrow> \<not> raises x"
  by (auto simp: int_or_none_Inr raises_def)

lemma links_row_accept:
  assumes "3 \<le> length row"
    and "py_int (row ! 0) = Inr l" "l \<noteq> 0" "sqlite_int l"
    and "py_int (row ! 1) = Inr s" "s \<noteq> 0" "sqlite_int s"
    and "py_int (row ! 2) = Inr d" "d \<noteq> 0" "sqlite_int d"
  shows "links_row st row =
           st\<lparr>table := insert_or_ignore link_id
                \<lparr>link_id = l, link_source_item_id = s, link_destination_item_id = d,
                 link_type = ustr ''related''\<rparr> (table st),
              count := Suc (count st)\<rparr>"
  using assms
  by (simp add: links_row_def links_try_def int_or_none_ok truthy_def execute_insert_def)

lemma links_row_reject:
  assumes "\<not> (3 \<le> length row \<and>
      (\<exists>l s d. py_int (row ! 0) = Inr l \<and> l \<noteq> 0 \<and> sqlite_int l \<and>
               py_int (row ! 1) = Inr s \<and> s \<noteq> 0 \<and> sqlite_int s \<and>
               py_int (row ! 2) = Inr d \<and> d \<noteq> 0 \<and> sqlite_int d))"
  shows "table (links_row st row) = table st \<and> count (links_row st row) = count st \<and>
         errors (links_row st row) = Suc (errors st)"
proof (cases "length row < 3")
  case True
  then show ?thesis by (simp add: links_row_def links_try_def)
next
  case len: False
  show ?thesis
  proof (cases "int_or_none (row ! 0)")
    case (Inl e)
    with len show ?thesis by (simp add: links_row_def links_try_def split: prod.splits)
  next
    case a: (Inr v0)
    show ?thesis
    proof (cases "int_or_none (row ! 1)")
      case (Inl e)
      with a len show ?thesis by (simp add: links_row_def links_try_def split: prod.splits)
    next
      case b: (Inr v1)
      show ?thesis
      proof (cases "int_or_none (row ! 2)")
        case (Inl e)
        with a b len show ?thesis by (simp add: links_row_def links_try_def split: prod.splits)
      next
        case c: (Inr v2)
        show ?thesis
        proof (cases "truthy v0 \<and> truthy v1 \<and> truthy v2")
          case False
          with a b c len show ?thesis by (auto simp: links_row_def links_try_def)
        next
          case True
          then have "py_int (row ! 0) = Inr (the v0) \<and> the v0 \<noteq> 0"
            and "py_int (row ! 1) = Inr (the v1) \<and> the v1 \<noteq> 0"
            and "py_int (row ! 2) = Inr (the v2) \<and> the v2 \<noteq> 0"
            using a b c by (simp_all add: int_or_none_truthy)
          with assms len have "\<not> (sqlite_int (the v0) \<and> sqlite_int (the v1) \<and> sqlite_int (the v2))"
            by auto
          then have "execute_insert link_id [the v0, the v1, the v2] r t =
              Inl (OverflowError, Int_too_large)"
            for r :: link_row and t
            by (auto simp: execute_insert_def)
          with a b c len True show ?thesis by (simp add: links_row_def links_try_def)
        qed
      qed
    qed
  qed
qed

lemma names_row_accept:
  assumes "2 \<le> length row" "py_int (row ! 0) = Inr n" "n \<noteq> 0" "sqlite_int n"
  shows "names_row st row =
           st\<lparr>table := insert_or_ignore name_id (names_values n row) (table st),
              count := Suc (count st)\<rparr>"
  using assms
  by (simp add: names_row_def names_try_def names_insert_def int_or_none_ok truthy_def
      execute_insert_def)

lemma names_row_fallback:
  assumes "2 < length row" "row ! 0 \<noteq> []" "py_int (row ! 0) = Inl ValueError"
    and "isdigit (row ! 2)" "py_int (row ! 2) = Inr n" "n \<noteq> 0" "sqlite_int n"
  shows "names_row st row =
           st\<lparr>table := insert_or_ignore name_id (names_values n row) (table st),
              count := Suc (count st)\<rparr>"
proof -
  have "int_or_none (row ! 0) = Inl (ValueError, py_int_message (row ! 0))"
    using assms(2,3) by (simp add: int_or_none_Inl)
  with assms show ?thesis
    by (simp add: names_row_def names_try_def names_insert_def truthy_def execute_insert_def)
qed

text \<open>A name row with an empty first field is rejected, whatever the other fields hold.\<close>

lemma names_row_empty_id:
  assumes "2 \<le> length row" "row ! 0 = []"
  shows "names_row st row = st\<lparr>errors := Suc (errors st)\<rparr>"
  using assms
  by (simp add: names_row_def names_try_def names_insert_def int_or_none_def truthy_def)

lemma names_row_reject:
  assumes "\<not> (2 \<le> length row \<and> (\<exists>n. py_int (row ! 0) = Inr n \<and> n \<noteq> 0 \<and> sqlite_int n))"
    and "\<not> (2 < length row \<and> row ! 0 \<noteq> [] \<and> py_int (row ! 0) = Inl ValueError \<and>
            isdigit (row ! 2) \<and> (\<exists>n. py_int (row ! 2) = Inr n \<and> n \<noteq> 0 \<and> sqlite_int n))"
  shows "table (names_row st row) = table st \<and> count (names_row st row) = count st \<and>
         errors (names_row st row) = Suc (errors st)"
proof (cases "length row < 2")
  case True
  then show ?thesis by (simp add: names_row_def names_try_def)
next
  case len: False
  have ins: "table (case names_insert st row v of Inr st' \<Rightarrow> st'
        | Inl (e, m) \<Rightarrow>
            st\<lparr>printed := printed st @ [Error_importing e m], errors := errors st + 1\<rparr>) = table st \<and>
      count (case names_insert st row v of Inr st' \<Rightarrow> st'
        | Inl (e, m) \<Rightarrow>
            st\<lparr>printed := printed st @ [Error_importing e m], errors := errors st + 1\<rparr>) = count st \<and>
      errors (case names_insert st row v of Inr st' \<Rightarrow> st'
        | Inl (e, m) \<Rightarrow>
            st\<lparr>printed := printed st @ [Error_importing e m], errors := errors st + 1\<rparr>) = Suc (errors st)"
    if "\<not> (truthy v \<and> sqlite_int (the v))" for v
    using that by (auto simp: names_insert_def execute_insert_def)
  show ?thesis
  proof (cases "row ! 0" rule: ident_cases)
    case (ok n)
    with assms(1) len have "\<not> (truthy (Some n) \<and> sqlite_int (the (Some n)))" by auto
    from ins [OF this] ok(3) len show ?thesis
      by (simp add: names_row_def names_try_def)
  next
    case zero
    have "\<not> (truthy (Some 0) \<and> sqlite_int (the (Some 0)))" by (simp add: truthy_def)
    from ins [OF this] zero(2) len show ?thesis
      by (simp add: names_row_def names_try_def)
  next
    case empty
    have "\<not> (truthy None \<and> sqlite_int (the None))" by (simp add: truthy_def)
    from ins [OF this] empty(2) len show ?thesis
      by (simp add: names_row_def names_try_def)
  next
    case bad
    show ?thesis
    proof (cases "length row > 2 \<and> isdigit (row ! 2)")
      case False
      with bad(3) len show ?thesis by (auto simp: names_row_def names_try_def)
    next
      case fb: True
      show ?thesis
      proof (cases "py_int (row ! 2)")
        case (Inl e)
        with bad(3) fb len show ?thesis by (simp add: names_row_def names_try_def)
      next
        case (Inr n)
        with assms(2) bad fb have "\<not> (truthy (Some n) \<and> sqlite_int (the (Some n)))"
          by (auto simp: truthy_def)
        from ins [OF this] bad(3) fb Inr len show ?thesis
          by (simp add: names_row_def names_try_def)
      qed
    qed
  qed
qed

lemma sources_row_accept:
  assumes "2 \<le> length row" "sources_title row \<noteq> []" "sqlite_int (next_source_id st)"
  shows "sources_row st row =
           st\<lparr>table := insert_or_ignore source_id (sources_values (next_source_id st) row) (table st),
              next_source_id := next_source_id st + 1,
              count := Suc (count st)\<rparr>"
  using assms by (simp add: sources_row_def sources_try_def execute_insert_def)

lemma sources_row_reject:
  assumes "\<not> (2 \<le> length row \<and> sources_title row \<noteq> [] \<and> sqlite_int (next_source_id st))"
  shows "table (sources_row st row) = table st \<and> count (sources_row st row) = count st \<and>
         errors (sources_row st row) = Suc (errors st) \<and>
         next_source_id (sources_row st row) = next_source_id st \<and>
         filter shows_row (printed (sources_row st row)) = filter shows_row (printed st)"
  using assms by (auto simp: sources_row_def sources_try_def execute_insert_def)

section \<open>Inserting with conflicts ignored\<close>









section \<open>The loops as folds of inserts\<close>

lemma items_values_clock:
  "10 \<le> length row \<Longrightarrow> items_values now n row = items_values now' n row"
  by (simp add: items_values_def)

lemma items_row_clock: "items_row now st row = items_row now' st row"
proof (cases "length row < 10")
  case True
  then show ?thesis by (simp add: items_row_def items_try_def)
next
  case False
  then have eq: "items_values now n row = items_values now' n row" for n
    by (simp add: items_values_clock)
  have "items_try now st row = items_try now' st row"
    unfolding items_try_def eq by (rule refl)
  then show ?thesis by (simp add: items_row_def)
qed

lemma items_step:
  "table (items_row now st row) =
     foldl (\<lambda>t r. insert_or_ignore item_id r t) (table st) (inserts (items_row now) row) \<and>
   count (items_row now st row) = count st + length (inserts (items_row now) row) \<and>
   errors (items_row now st row) + length (inserts (items_row now) row) = Suc (errors st)"
proof (cases "10 \<le> length row \<and> (\<exists>n. py_int (row ! 0) = Inr n \<and> n \<noteq> 0 \<and> sqlite_int n)")
  case True
  then obtain n where n: "10 \<le> length row" "py_int (row ! 0) = Inr n" "n \<noteq> 0" "sqlite_int n"
    by auto
  show ?thesis
    by (simp add: inserts_def items_row_accept [OF n] start_def insert_or_ignore_Nil)
next
  case False
  from items_row_reject [OF False, of now st] items_row_reject [OF False, of now "start []"]
  show ?thesis by (simp add: inserts_def start_def)
qed

lemma cliches_step:
  "table (cliches_row st row) =
     foldl (\<lambda>t r. insert_or_ignore cliche_id r t) (table st) (inserts cliches_row row) \<and>
   count (cliches_row st row) = count st + length (inserts cliches_row row) \<and>
   errors (cliches_row st row) + length (inserts cliches_row row) = Suc (errors st)"
proof (cases "2 \<le> length row \<and> (\<exists>n. py_int (row ! 0) = Inr n \<and> n \<noteq> 0 \<and> sqlite_int n)")
  case True
  then obtain n where n: "2 \<le> length row" "py_int (row ! 0) = Inr n" "n \<noteq> 0" "sqlite_int n"
    by auto
  show ?thesis
    by (simp add: inserts_def cliches_row_accept [OF n] start_def insert_or_ignore_Nil)
next
  case False
  from cliches_row_reject [OF False, of st] cliches_row_reject [OF False, of "start []"]
  show ?thesis by (simp add: inserts_def start_def)
qed

lemma literary_terms_step:
  "table (literary_terms_row st row) =
     foldl (\<lambda>t r. insert_or_ignore term_id r t) (table st) (inserts literary_terms_row row) \<and>
   count (literary_terms_row st row) = count st + length (inserts literary_terms_row row) \<and>
   errors (literary_terms_row st row) + length (inserts literary_terms_row row) = Suc (errors st)"
proof (cases "2 \<le> length row \<and> (\<exists>n. py_int (row ! 0) = Inr n \<and> n \<noteq> 0 \<and> sqlite_int n)")
  case True
  then obtain n where n: "2 \<le> length row" "py_int (row ! 0) = Inr n" "n \<noteq> 0" "sqlite_int n"
    by auto
  show ?thesis
    by (simp add: inserts_def literary_terms_row_accept [OF n] start_def insert_or_ignore_Nil)
next
  case False
  from literary_terms_row_reject [OF False, of st]
    literary_terms_row_reject [OF False, of "start []"]
  show ?thesis by (simp add: inserts_def start_def)
qed


lemma names_step:
  "table (names_row st row) =
     foldl (\<lambda>t r. insert_or_ignore name_id r t) (table st) (inserts names_row row) \<and>
   count (names_row st row) = count st + length (inserts names_row row) \<and>
   errors (names_row st row) + length (inserts names_row row) = Suc (errors st)"
proof (cases "2 \<le> length row \<and> (\<exists>n. py_int (row ! 0) = Inr n \<and> n \<noteq> 0 \<and> sqlite_int n)")
  case True
  then obtain n where n: "2 \<le> length row" "py_int (row ! 0) = Inr n" "n \<noteq> 0" "sqlite_int n"
    by auto
  show ?thesis
    by (simp add: inserts_def names_row_accept [OF n] start_def insert_or_ignore_Nil)
next
  case primary: False
  show ?thesis
  proof (cases "2 < length row \<and> row ! 0 \<noteq> [] \<and> py_int (row ! 0) = Inl ValueError \<and>
            isdigit (row ! 2) \<and> (\<exists>n. py_int (row ! 2) = Inr n \<and> n \<noteq> 0 \<and> sqlite_int n)")
    case True
    then obtain n where n: "2 < length row" "row ! 0 \<noteq> []" "py_int (row ! 0) = Inl ValueError"
        "isdigit (row ! 2)" "py_int (row ! 2) = Inr n" "n \<noteq> 0" "sqlite_int n"
      by auto
    show ?thesis
      by (simp add: inserts_def names_row_fallback [OF n] start_def insert_or_ignore_Nil)
  next
    case False
    from names_row_reject [OF primary False, of st] names_row_reject [OF primary False, of "start []"]
    show ?thesis by (simp add: inserts_def start_def)
  qed
qed

lemma import_fold:
  assumes step: "\<And>st row.
      table (body st row) = foldl (\<lambda>t r. insert_or_ignore key r t) (table st) (ins row) \<and>
      count (body st row) = count st + length (ins row) \<and>
      errors (body st row) + length (ins row) = Suc (errors st)"
  shows "table (foldl body st rows) =
           foldl (\<lambda>t r. insert_or_ignore key r t) (table st) (concat (map ins rows)) \<and>
         count (foldl body st rows) = count st + length (concat (map ins rows)) \<and>
         errors (foldl body st rows) + length (concat (map ins rows)) = errors st + length rows"
proof (induction rows arbitrary: st)
  case Nil
  then show ?case by simp
next
  case (Cons row rows)
  from Cons [of "body st row"] step [of st row] show ?case by simp
qed

lemma items_loop_fold: "items_loop clock i st rows = foldl (items_row now) st rows"
proof (induction rows arbitrary: i st)
  case Nil
  then show ?case by simp
next
  case (Cons row rows)
  then show ?case by (simp add: items_row_clock [of "clock i" st row now])
qed

section \<open>The rows the input stands for\<close>









section \<open>Duplicate identities\<close>







section \<open>Identity validation\<close>

lemma run_counts:
  assumes step: "\<And>st row.
      table (body st row) = foldl (\<lambda>t r. insert_or_ignore key r t) (table st) (ins row) \<and>
      count (body st row) = count st + length (ins row) \<and>
      errors (body st row) + length (ins row) = Suc (errors st)"
  shows "count (foldl body (start conn) rows) + errors (foldl body (start conn) rows) = length rows"
  using import_fold [of body key ins "start conn" rows, OF step] by (simp add: start_def)

lemma py_int_7: "py_int (ustr ''7'') = Inr 7"
  by code_simp

lemma py_int_neg5: "py_int (ustr ''-5'') = Inr (- 5)"
  by code_simp

lemma py_int_0: "py_int (ustr ''0'') = Inr 0"
  by code_simp

lemma sqlite_int_7: "sqlite_int 7"
  by (simp add: sqlite_int_def)

lemma sqlite_int_neg5: "sqlite_int (- 5)"
  by (simp add: sqlite_int_def)

text \<open>
  Claim C1, as amended. For Item, Cliche and Literary Term a row is accepted (it reaches
  the insert and is counted in \<open>count\<close>) exactly when it has the minimum number of
  fields and \<^verbatim>\<open>int\<close> of its first field is a non-zero integer of 64 bits; the integer
  may be negative. A Name row whose first field is not empty is accepted exactly when it
  has two fields or more and either its first field is such an integer or \<^verbatim>\<open>int\<close>
  raises on the first field and the third field is all digits and is such an integer; no
  Name row is accepted otherwise, and a Name row whose first field is an integer that is
  zero or does not fit is rejected whatever the third field holds. (What is to happen to
  a Name row with an empty first field and an identity in the third is left to claim
  C2.) Every row that is not accepted is a rejection and not a fatal error: the table and
  \<open>count\<close> are unchanged, \<open>errors\<close> grows by one, and the loop goes on, so that after
  the run \<open>count + errors\<close> is the number of rows.
\<close>

theorem identity_nonzero_integer:
  fixes sti :: "item_row import_state" and stc :: "cliche_row import_state"
    and stt :: "term_row import_state" and stn :: "name_row import_state"
  shows
  "(count (items_row now sti row) = Suc (count sti) \<longleftrightarrow>
      10 \<le> length row \<and> (\<exists>n. py_int (row ! 0) = Inr n \<and> n \<noteq> 0 \<and> sqlite_int n)) \<and>
   (count (cliches_row stc row) = Suc (count stc) \<longleftrightarrow>
      2 \<le> length row \<and> (\<exists>n. py_int (row ! 0) = Inr n \<and> n \<noteq> 0 \<and> sqlite_int n)) \<and>
   (count (literary_terms_row stt row) = Suc (count stt) \<longleftrightarrow>
      2 \<le> length row \<and> (\<exists>n. py_int (row ! 0) = Inr n \<and> n \<noteq> 0 \<and> sqlite_int n)) \<and>
   (row ! 0 \<noteq> [] \<longrightarrow>
      (count (names_row stn row) = Suc (count stn) \<longleftrightarrow>
         2 \<le> length row \<and>
         ((\<exists>n. py_int (row ! 0) = Inr n \<and> n \<noteq> 0 \<and> sqlite_int n) \<or>
          (py_int (row ! 0) = Inl ValueError \<and> 2 < length row \<and> isdigit (row ! 2) \<and>
           (\<exists>n. py_int (row ! 2) = Inr n \<and> n \<noteq> 0 \<and> sqlite_int n))))) \<and>
   (count (names_row stn row) = Suc (count stn) \<longrightarrow>
      2 \<le> length row \<and>
      ((\<exists>n. py_int (row ! 0) = Inr n \<and> n \<noteq> 0 \<and> sqlite_int n) \<or>
       (py_int (row ! 0) = Inl ValueError \<and> 2 < length row \<and> isdigit (row ! 2) \<and>
        (\<exists>n. py_int (row ! 2) = Inr n \<and> n \<noteq> 0 \<and> sqlite_int n)))) \<and>
   (py_int (row ! 0) = Inr m \<and> (m = 0 \<or> \<not> sqlite_int m) \<longrightarrow>
      table (names_row stn row) = table stn \<and> count (names_row stn row) = count stn \<and>
      errors (names_row stn row) = Suc (errors stn)) \<and>
   (count (items_row now sti row) = Suc (count sti) \<or>
      table (items_row now sti row) = table sti \<and> count (items_row now sti row) = count sti \<and>
      errors (items_row now sti row) = Suc (errors sti)) \<and>
   (count (cliches_row stc row) = Suc (count stc) \<or>
      table (cliches_row stc row) = table stc \<and> count (cliches_row stc row) = count stc \<and>
      errors (cliches_row stc row) = Suc (errors stc)) \<and>
   (count (literary_terms_row stt row) = Suc (count stt) \<or>
      table (literary_terms_row stt row) = table stt \<and>
      count (literary_terms_row stt row) = count stt \<and>
      errors (literary_terms_row stt row) = Suc (errors stt)) \<and>
   (count (names_row stn row) = Suc (count stn) \<or>
      table (names_row stn row) = table stn \<and> count (names_row stn row) = count stn \<and>
      errors (names_row stn row) = Suc (errors stn)) \<and>
   count (import_items clock ci rows) + errors (import_items clock ci rows) = length rows \<and>
   count (import_cliches cc rows) + errors (import_cliches cc rows) = length rows \<and>
   count (import_literary_terms ct rows) + errors (import_literary_terms ct rows) = length rows \<and>
   count (import_names cn rows) + errors (import_names cn rows) = length rows"
proof -
  let ?ok = "\<lambda>m. m \<le> length row \<and> (\<exists>n. py_int (row ! 0) = Inr n \<and> n \<noteq> 0 \<and> sqlite_int n)"
  let ?fb = "2 < length row \<and> row ! 0 \<noteq> [] \<and> py_int (row ! 0) = Inl ValueError \<and>
            isdigit (row ! 2) \<and> (\<exists>n. py_int (row ! 2) = Inr n \<and> n \<noteq> 0 \<and> sqlite_int n)"
  have i1: "count (items_row now sti row) = Suc (count sti)" if "?ok 10"
    using that items_row_accept [of row _ now sti] by auto
  have i2: "table (items_row now sti row) = table sti \<and> count (items_row now sti row) = count sti \<and>
      errors (items_row now sti row) = Suc (errors sti)" if "\<not> ?ok 10"
    using items_row_reject [OF that, of now sti] by simp
  have c1: "count (cliches_row stc row) = Suc (count stc)" if "?ok 2"
    using that cliches_row_accept [of row _ stc] by auto
  have c2: "table (cliches_row stc row) = table stc \<and> count (cliches_row stc row) = count stc \<and>
      errors (cliches_row stc row) = Suc (errors stc)" if "\<not> ?ok 2"
    using cliches_row_reject [OF that, of stc] by simp
  have t1: "count (literary_terms_row stt row) = Suc (count stt)" if "?ok 2"
    using that literary_terms_row_accept [of row _ stt] by auto
  have t2: "table (literary_terms_row stt row) = table stt \<and>
      count (literary_terms_row stt row) = count stt \<and>
      errors (literary_terms_row stt row) = Suc (errors stt)" if "\<not> ?ok 2"
    using literary_terms_row_reject [OF that, of stt] by simp
  have n1: "count (names_row stn row) = Suc (count stn)" if "?ok 2"
    using that names_row_accept [of row _ stn] by auto
  have n2: "table (names_row stn row) = table stn \<and> count (names_row stn row) = count stn \<and>
      errors (names_row stn row) = Suc (errors stn)" if "\<not> ?ok 2" "\<not> ?fb"
    using names_row_reject [OF that, of stn] by simp
  have n3: "count (names_row stn row) = Suc (count stn)" if "?fb"
    using that names_row_fallback [of row _ stn] by auto
  have items: "count (items_row now sti row) = Suc (count sti) \<longleftrightarrow> ?ok 10"
    using i1 i2 by (cases "?ok 10") simp_all
  have cliches: "count (cliches_row stc row) = Suc (count stc) \<longleftrightarrow> ?ok 2"
    using c1 c2 by (cases "?ok 2") simp_all
  have terms: "count (literary_terms_row stt row) = Suc (count stt) \<longleftrightarrow> ?ok 2"
    using t1 t2 by (cases "?ok 2") simp_all
  have names: "count (names_row stn row) = Suc (count stn) \<longleftrightarrow> ?ok 2 \<or> ?fb"
    using n1 n2 n3 by (cases "?ok 2 \<or> ?fb") auto
  have names_iff: "row ! 0 \<noteq> [] \<longrightarrow>
      (count (names_row stn row) = Suc (count stn) \<longleftrightarrow>
         2 \<le> length row \<and>
         ((\<exists>n. py_int (row ! 0) = Inr n \<and> n \<noteq> 0 \<and> sqlite_int n) \<or>
          (py_int (row ! 0) = Inl ValueError \<and> 2 < length row \<and> isdigit (row ! 2) \<and>
           (\<exists>n. py_int (row ! 2) = Inr n \<and> n \<noteq> 0 \<and> sqlite_int n))))"
    unfolding names by auto
  have names_only_if: "count (names_row stn row) = Suc (count stn) \<longrightarrow>
      2 \<le> length row \<and>
      ((\<exists>n. py_int (row ! 0) = Inr n \<and> n \<noteq> 0 \<and> sqlite_int n) \<or>
       (py_int (row ! 0) = Inl ValueError \<and> 2 < length row \<and> isdigit (row ! 2) \<and>
        (\<exists>n. py_int (row ! 2) = Inr n \<and> n \<noteq> 0 \<and> sqlite_int n)))"
    unfolding names by auto
  have names_zero: "py_int (row ! 0) = Inr m \<and> (m = 0 \<or> \<not> sqlite_int m) \<longrightarrow>
      table (names_row stn row) = table stn \<and> count (names_row stn row) = count stn \<and>
      errors (names_row stn row) = Suc (errors stn)"
  proof
    assume m: "py_int (row ! 0) = Inr m \<and> (m = 0 \<or> \<not> sqlite_int m)"
    then have "\<not> ?ok 2" "\<not> ?fb" by auto
    then show "table (names_row stn row) = table stn \<and> count (names_row stn row) = count stn \<and>
      errors (names_row stn row) = Suc (errors stn)"
      by (rule n2)
  qed
  have r1: "count (import_items clock ci rows) + errors (import_items clock ci rows) = length rows"
    unfolding import_items_def items_loop_fold [of clock 0 _ rows "[]"]
    by (rule run_counts [of "items_row []" item_id "inserts (items_row [])"]) (rule items_step)
  have r2: "count (import_cliches cc rows) + errors (import_cliches cc rows) = length rows"
    unfolding import_cliches_def by (rule run_counts) (rule cliches_step)
  have r3: "count (import_literary_terms ct rows) + errors (import_literary_terms ct rows) = length rows"
    unfolding import_literary_terms_def by (rule run_counts) (rule literary_terms_step)
  have r4: "count (import_names cn rows) + errors (import_names cn rows) = length rows"
    unfolding import_names_def by (rule run_counts) (rule names_step)
  have d1: "count (items_row now sti row) = Suc (count sti) \<or>
      table (items_row now sti row) = table sti \<and> count (items_row now sti row) = count sti \<and>
      errors (items_row now sti row) = Suc (errors sti)"
    using i1 i2 by blast
  have d2: "count (cliches_row stc row) = Suc (count stc) \<or>
      table (cliches_row stc row) = table stc \<and> count (cliches_row stc row) = count stc \<and>
      errors (cliches_row stc row) = Suc (errors stc)"
    using c1 c2 by blast
  have d3: "count (literary_terms_row stt row) = Suc (count stt) \<or>
      table (literary_terms_row stt row) = table stt \<and>
      count (literary_terms_row stt row) = count stt \<and>
      errors (literary_terms_row stt row) = Suc (errors stt)"
    using t1 t2 by blast
  have d4: "count (names_row stn row) = Suc (count stn) \<or>
      table (names_row stn row) = table stn \<and> count (names_row stn row) = count stn \<and>
      errors (names_row stn row) = Suc (errors stn)"
    using n1 n2 n3 by blast
  show ?thesis
    using items cliches terms names_iff names_only_if names_zero d1 d2 d3 d4 r1 r2 r3 r4
    by blast
qed

text \<open>
  The theorem at an item row with identity 7, a cliche row with identity 0, and the name
  row \<^verbatim>\<open>0,Adams,5\<close>, which is rejected although its third field is an identity.
\<close>

theorem identity_nonzero_integer_witness:
  "count (items_row (ustr ''2024-01-01'') (start [])
      [ustr ''7'', ustr ''glimmer'', ustr ''Word'', ustr ''a faint light'', [], [], [], [], [],
       ustr ''2024-01-01'']) = Suc 0 \<and>
   count (names_row (start [])
      [ustr ''7'', ustr ''glimmer'', ustr ''Word'', ustr ''a faint light'', [], [], [], [], [],
       ustr ''2024-01-01'']) = Suc 0 \<and>
   errors (cliches_row (start []) [ustr ''0'', ustr ''dead as a doornail'']) = Suc 0 \<and>
   table (cliches_row (start []) [ustr ''0'', ustr ''dead as a doornail'']) = [] \<and>
   errors (names_row (start []) [ustr ''0'', ustr ''Adams'', ustr ''5'']) = Suc 0 \<and>
   table (names_row (start []) [ustr ''0'', ustr ''Adams'', ustr ''5'']) = []"
proof -
  let ?row = "[ustr ''7'', ustr ''glimmer'', ustr ''Word'', ustr ''a faint light'', [], [], [], [], [],
       ustr ''2024-01-01'']"
  let ?zero = "[ustr ''0'', ustr ''dead as a doornail'']"
  have "py_int (?row ! 0) = Inr 7" using py_int_7 by simp
  then have ok: "\<exists>n. py_int (?row ! 0) = Inr n \<and> n \<noteq> 0 \<and> sqlite_int n"
    using sqlite_int_7 by simp
  have "py_int (?zero ! 0) = Inr 0" using py_int_0 by simp
  then have no: "\<not> (\<exists>n. py_int (?zero ! 0) = Inr n \<and> n \<noteq> 0 \<and> sqlite_int n)"
    by simp
  have len: "10 \<le> length ?row" "2 \<le> length ?row" by simp_all
  have ne: "?row ! 0 \<noteq> []" by simp
  have a: "count (items_row (ustr ''2024-01-01'') (start []) ?row) = Suc (count (start [] :: item_row import_state))"
    using identity_nonzero_integer [of "ustr ''2024-01-01''" "start []" ?row "start []"
        "start []" "start []" 0 "\<lambda>i. []" "[]" "[]" "[]" "[]" "[]"] ok len by blast
  have b: "count (names_row (start []) ?row) = Suc (count (start [] :: name_row import_state))"
    using identity_nonzero_integer [of "ustr ''2024-01-01''" "start []" ?row "start []"
        "start []" "start []" 0 "\<lambda>i. []" "[]" "[]" "[]" "[]" "[]"] ok len ne by blast
  have c: "table (cliches_row (start []) ?zero) = table (start [] :: cliche_row import_state) \<and>
      errors (cliches_row (start []) ?zero) = Suc (errors (start [] :: cliche_row import_state))"
    using identity_nonzero_integer [of "ustr ''2024-01-01''" "start []" ?zero "start []"
        "start []" "start []" 0 "\<lambda>i. []" "[]" "[]" "[]" "[]" "[]"] no by blast
  let ?nz = "[ustr ''0'', ustr ''Adams'', ustr ''5'']"
  have "py_int (?nz ! 0) = Inr 0" using py_int_0 by simp
  then have z: "py_int (?nz ! 0) = Inr 0 \<and> ((0 :: int) = 0 \<or> \<not> sqlite_int 0)" by simp
  have d: "table (names_row (start []) ?nz) = table (start [] :: name_row import_state) \<and>
      errors (names_row (start []) ?nz) = Suc (errors (start [] :: name_row import_state))"
    using identity_nonzero_integer [of "ustr ''2024-01-01''" "start []" ?nz "start []"
        "start []" "start []" 0 "\<lambda>i. []" "[]" "[]" "[]" "[]" "[]"] z by blast
  from a b c d show ?thesis by (simp add: start_def)
qed

text \<open>
  Claim C1 as stated fails: an item row whose first field is \<^verbatim>\<open>-5\<close> is accepted and
  stored with the identity \<open>-5\<close>, which is not a positive integer.
\<close>

theorem negative_identity_accepted:
  "count (items_row (ustr ''2024-01-01'') (start [])
      [ustr ''-5'', ustr ''glimmer'', ustr ''Word'', ustr ''a faint light'', [], [], [], [], [],
       ustr ''2024-01-01'']) = Suc 0 \<and>
   map item_id (table (items_row (ustr ''2024-01-01'') (start [])
      [ustr ''-5'', ustr ''glimmer'', ustr ''Word'', ustr ''a faint light'', [], [], [], [], [],
       ustr ''2024-01-01''])) = [- 5] \<and>
   py_int (ustr ''-5'') = Inr (- 5) \<and> \<not> (0 :: int) < - 5"
proof -
  let ?row = "[ustr ''-5'', ustr ''glimmer'', ustr ''Word'', ustr ''a faint light'', [], [], [], [], [],
       ustr ''2024-01-01'']"
  have p: "py_int (?row ! 0) = Inr (- 5)" using py_int_neg5 by simp
  have len: "10 \<le> length ?row" by simp
  have "items_row (ustr ''2024-01-01'') (start []) ?row =
      (start [])\<lparr>table := insert_or_ignore item_id (items_values (ustr ''2024-01-01'') (- 5) ?row)
          (table (start [])), count := Suc (count (start [] :: item_row import_state))\<rparr>"
    by (rule items_row_accept [OF len p _ sqlite_int_neg5]) simp
  then have "count (items_row (ustr ''2024-01-01'') (start []) ?row) = Suc 0"
    and "map item_id (table (items_row (ustr ''2024-01-01'') (start []) ?row)) = [- 5]"
    by (simp_all add: start_def insert_or_ignore_Nil items_values_def)
  then show ?thesis using py_int_neg5 by simp
qed

section \<open>The synthetic keys of the sources\<close>

lemma number_from_ids:
  "map source_id (number_from n rows) = map (\<lambda>i. n + int i) [0..<length rows]"
proof (induction rows arbitrary: n)
  case Nil
  then show ?case by simp
next
  case (Cons row rows)
  have "map (\<lambda>i. n + int i) [0..<Suc (length rows)] =
      n # map (\<lambda>i. n + int (Suc i)) [0..<length rows]"
    by (simp add: map_upt_Suc del: upt_Suc)
  also have "\<dots> = n # map (\<lambda>i. (n + 1) + int i) [0..<length rows]"
    by (simp add: add.assoc add.commute)
  finally show ?case using Cons [of "n + 1"] by (simp add: sources_values_def del: upt_Suc)
qed

lemma length_number_from: "length (number_from n rows) = length rows"
  by (induction rows arbitrary: n) simp_all

lemma sources_run:
  assumes "\<forall>r\<in>set (table st). source_id r < next_source_id st"
    and "- (2 ^ 63) \<le> next_source_id st"
    and "next_source_id st + int (length rows) \<le> 2 ^ 63"
  shows "table (foldl sources_row st rows) =
           table st @ number_from (next_source_id st)
             (filter (\<lambda>row. 2 \<le> length row \<and> sources_title row \<noteq> []) rows) \<and>
         next_source_id (foldl sources_row st rows) =
           next_source_id st +
             int (length (filter (\<lambda>row. 2 \<le> length row \<and> sources_title row \<noteq> []) rows)) \<and>
         count (foldl sources_row st rows) =
           count st + length (filter (\<lambda>row. 2 \<le> length row \<and> sources_title row \<noteq> []) rows) \<and>
         errors (foldl sources_row st rows) =
           errors st +
             length (filter (\<lambda>row. \<not> (2 \<le> length row \<and> sources_title row \<noteq> [])) rows)"
  using assms
proof (induction rows arbitrary: st)
  case Nil
  then show ?case by simp
next
  case (Cons row rows)
  show ?case
  proof (cases "2 \<le> length row \<and> sources_title row \<noteq> []")
    case True
    have fits: "sqlite_int (next_source_id st)"
      using Cons.prems(2,3) by (simp add: sqlite_int_def)
    have new: "source_id (sources_values (next_source_id st) row) \<notin> set (map source_id (table st))"
      using Cons.prems(1) by (auto simp: sources_values_def)
    let ?st = "sources_row st row"
    have st: "?st = st\<lparr>table := table st @ [sources_values (next_source_id st) row],
        next_source_id := next_source_id st + 1, count := Suc (count st)\<rparr>"
      using True fits new by (simp add: sources_row_accept insert_or_ignore_def)
    have 1: "\<forall>r\<in>set (table ?st). source_id r < next_source_id ?st"
      using Cons.prems(1) by (auto simp: st sources_values_def)
    have 2: "- (2 ^ 63) \<le> next_source_id ?st"
      using Cons.prems(2) by (simp add: st)
    have 3: "next_source_id ?st + int (length rows) \<le> 2 ^ 63"
      using Cons.prems(3) by (simp add: st)
    from Cons.IH [OF 1 2 3] True show ?thesis by (simp add: st)
  next
    case False
    let ?st = "sources_row st row"
    from False have "\<not> (2 \<le> length row \<and> sources_title row \<noteq> [] \<and> sqlite_int (next_source_id st))"
      by simp
    from sources_row_reject [OF this]
    have st: "table ?st = table st" "count ?st = count st" "errors ?st = Suc (errors st)"
      "next_source_id ?st = next_source_id st"
      by simp_all
    have 1: "\<forall>r\<in>set (table ?st). source_id r < next_source_id ?st"
      using Cons.prems(1) by (simp add: st)
    have 2: "- (2 ^ 63) \<le> next_source_id ?st"
      using Cons.prems(2) by (simp add: st)
    have 3: "next_source_id ?st + int (length rows) \<le> 2 ^ 63"
      using Cons.prems(3) by (simp add: st)
    from Cons.IH [OF 1 2 3] False show ?thesis by (simp add: st)
  qed
qed

text \<open>
  Claim C3. The counter of \<^verbatim>\<open>import_sources\<close> starts at 1000 and advances by one for
  each accepted row and not for a rejected one: starting from an empty table, the stored
  rows are the accepted rows (at least two fields and a non-empty title) in input order
  with the identities 1000, 1001, ..., and the counter ends at 1000 plus the number of
  accepted rows. When each of the \<open>N\<close> rows has at least two fields and a non-empty title,
  the identities are 1000, ..., 1000 + \<open>N\<close> - 1 in input order. The bound on the number
  of rows keeps the identities within the 64 bits of the store.
\<close>

theorem sources_identities_sequential:
  assumes "1000 + int (length rows) \<le> 2 ^ 63"
  shows "table (import_sources [] rows) =
           number_from 1000 (filter (\<lambda>row. 2 \<le> length row \<and> sources_title row \<noteq> []) rows) \<and>
         count (import_sources [] rows) =
           length (filter (\<lambda>row. 2 \<le> length row \<and> sources_title row \<noteq> []) rows) \<and>
         map source_id (table (import_sources [] rows)) =
           map (\<lambda>i. 1000 + int i) [0..<count (import_sources [] rows)] \<and>
         next_source_id (import_sources [] rows) = 1000 + int (count (import_sources [] rows)) \<and>
         count (import_sources [] rows) + errors (import_sources [] rows) = length rows \<and>
         ((\<forall>row\<in>set rows. 2 \<le> length row \<and> sources_title row \<noteq> []) \<longrightarrow>
            map source_id (table (import_sources [] rows)) =
              map (\<lambda>i. 1000 + int i) [0..<length rows] \<and>
            table (import_sources [] rows) = number_from 1000 rows \<and>
            count (import_sources [] rows) = length rows)"
proof -
  let ?ok = "\<lambda>row. 2 \<le> length row \<and> sources_title row \<noteq> []"
  have "\<forall>r\<in>set (table \<lparr>table = [], count = 0, errors = 0, printed = [], next_source_id = 1000\<rparr>).
      source_id r < 1000"
    by simp
  from sources_run [of "\<lparr>table = [], count = 0, errors = 0, printed = [], next_source_id = 1000\<rparr>" rows]
    assms
  have t: "table (import_sources [] rows) = number_from 1000 (filter ?ok rows)"
    and n: "next_source_id (import_sources [] rows) = 1000 + int (length (filter ?ok rows))"
    and c: "count (import_sources [] rows) = length (filter ?ok rows)"
    and e: "errors (import_sources [] rows) = length (filter (\<lambda>row. \<not> ?ok row) rows)"
    by (simp_all add: import_sources_def)
  have ids: "map source_id (table (import_sources [] rows)) =
      map (\<lambda>i. 1000 + int i) [0..<count (import_sources [] rows)]"
    by (simp add: t c number_from_ids)
  have total: "count (import_sources [] rows) + errors (import_sources [] rows) = length rows"
    using sum_length_filter_compl [of ?ok rows] by (simp add: c e)
  have all: "map source_id (table (import_sources [] rows)) =
        map (\<lambda>i. 1000 + int i) [0..<length rows] \<and>
      table (import_sources [] rows) = number_from 1000 rows \<and>
      count (import_sources [] rows) = length rows"
    if "\<forall>row\<in>set rows. ?ok row"
  proof -
    from that have "filter ?ok rows = rows" by (simp add: filter_id_conv)
    with t c ids show ?thesis by simp
  qed
  have n': "next_source_id (import_sources [] rows) = 1000 + int (count (import_sources [] rows))"
    by (simp add: n c)
  from t c ids n' total all show ?thesis by blast
qed

text \<open>
  The theorem at two accepted rows, and at the same rows with a row without a title
  between them: the identities are 1000 and 1001 both times.
\<close>

theorem sources_identities_sequential_witness:
  "map source_id (table (import_sources []
      [[ustr ''Frost'', ustr ''NoB'', ustr ''North of Boston''],
       [[], ustr ''Leaves of Grass'']])) = [1000, 1001] \<and>
   map source_id (table (import_sources []
      [[ustr ''Frost'', ustr ''NoB'', ustr ''North of Boston''],
       [ustr ''Whitman'', []],
       [[], ustr ''Leaves of Grass'']])) = [1000, 1001] \<and>
   next_source_id (import_sources []
      [[ustr ''Frost'', ustr ''NoB'', ustr ''North of Boston''],
       [ustr ''Whitman'', []],
       [[], ustr ''Leaves of Grass'']]) = 1002 \<and>
   errors (import_sources []
      [[ustr ''Frost'', ustr ''NoB'', ustr ''North of Boston''],
       [ustr ''Whitman'', []],
       [[], ustr ''Leaves of Grass'']]) = 1"
proof -
  let ?r1 = "[ustr ''Frost'', ustr ''NoB'', ustr ''North of Boston'']"
  let ?r0 = "[ustr ''Whitman'', []]"
  let ?r2 = "[[], ustr ''Leaves of Grass'']"
  have b2: "1000 + int (length [?r1, ?r2]) \<le> 2 ^ 63" by simp
  have b3: "1000 + int (length [?r1, ?r0, ?r2]) \<le> 2 ^ 63" by simp
  have ok: "\<forall>row\<in>set [?r1, ?r2]. 2 \<le> length row \<and> sources_title row \<noteq> []"
    by (simp add: sources_title_def)
  have f: "filter (\<lambda>row. 2 \<le> length row \<and> sources_title row \<noteq> []) [?r1, ?r0, ?r2] = [?r1, ?r2]"
    by (simp add: sources_title_def)
  have u: "[0..<length [?r1, ?r2]] = [0, 1]" by (simp add: upt_rec)
  from sources_identities_sequential [OF b2] ok
  have "map source_id (table (import_sources [] [?r1, ?r2])) =
      map (\<lambda>i. 1000 + int i) [0..<length [?r1, ?r2]]"
    by blast
  then have a: "map source_id (table (import_sources [] [?r1, ?r2])) = [1000, 1001]"
    unfolding u by simp
  from sources_identities_sequential [OF b3]
  have c: "count (import_sources [] [?r1, ?r0, ?r2]) = length [?r1, ?r2]"
    and i: "map source_id (table (import_sources [] [?r1, ?r0, ?r2])) =
      map (\<lambda>i. 1000 + int i) [0..<count (import_sources [] [?r1, ?r0, ?r2])]"
    and n: "next_source_id (import_sources [] [?r1, ?r0, ?r2]) =
      1000 + int (count (import_sources [] [?r1, ?r0, ?r2]))"
    and e: "count (import_sources [] [?r1, ?r0, ?r2]) + errors (import_sources [] [?r1, ?r0, ?r2]) =
      length [?r1, ?r0, ?r2]"
    unfolding f by blast+
  from i have i': "map source_id (table (import_sources [] [?r1, ?r0, ?r2])) = [1000, 1001]"
    unfolding c u by simp
  from n have n': "next_source_id (import_sources [] [?r1, ?r0, ?r2]) = 1002"
    unfolding c by simp
  from e have e': "errors (import_sources [] [?r1, ?r0, ?r2]) = 1"
    unfolding c by simp
  from a i' n' e' show ?thesis by simp
qed

section \<open>The shape check\<close>

lemma items_row_no_shape_message:
  assumes "10 \<le> length row"
  shows "printed (items_row now st row) \<noteq> printed st @ [Skipping_insufficient_columns m]"
proof (cases "row ! 0" rule: ident_cases)
  case (ok n)
  with assms show ?thesis
    by (simp add: items_row_def items_try_def truthy_def execute_insert_def Let_def)
next
  case zero
  with assms show ?thesis by (simp add: items_row_def items_try_def truthy_def)
next
  case empty
  with assms show ?thesis by (simp add: items_row_def items_try_def truthy_def)
next
  case bad
  with assms show ?thesis by (simp add: items_row_def items_try_def truthy_def Let_def)
qed

text \<open>
  Claim C7. A row with fewer fields than the minimum of its kind (10 for an item, 3 for a
  link, 2 for the others), so also with one field fewer, is rejected by the shape
  check: \<open>errors\<close> grows by one and nothing else changes (the item loop also prints the
  number of columns). A row with exactly the minimum number of fields passes the shape
  check, and the validation of the identity (for a source, of the title) decides: it is
  accepted exactly when its identity columns are non-zero integers of 64 bits (for a
  source, when the title, here the second field, is not empty and the next key fits the
  store), and an item row of ten fields never prints the message of the shape check.
\<close>

theorem shape_check:
  fixes sti :: "item_row import_state" and stl :: "link_row import_state"
    and stc :: "cliche_row import_state" and stn :: "name_row import_state"
    and stt :: "term_row import_state" and sts :: sources_state
  shows
  "(length row < 10 \<longrightarrow>
      items_row now sti row =
        sti\<lparr>printed := printed sti @ [Skipping_insufficient_columns (length row)],
            errors := Suc (errors sti)\<rparr>) \<and>
   (length row = 10 \<longrightarrow>
      (count (items_row now sti row) = Suc (count sti) \<longleftrightarrow>
         (\<exists>n. py_int (row ! 0) = Inr n \<and> n \<noteq> 0 \<and> sqlite_int n)) \<and>
      printed (items_row now sti row) \<noteq> printed sti @ [Skipping_insufficient_columns 10]) \<and>
   (length row < 3 \<longrightarrow> links_row stl row = stl\<lparr>errors := Suc (errors stl)\<rparr>) \<and>
   (length row = 3 \<longrightarrow>
      (count (links_row stl row) = Suc (count stl) \<longleftrightarrow>
         (\<exists>l s d. py_int (row ! 0) = Inr l \<and> l \<noteq> 0 \<and> sqlite_int l \<and>
                  py_int (row ! 1) = Inr s \<and> s \<noteq> 0 \<and> sqlite_int s \<and>
                  py_int (row ! 2) = Inr d \<and> d \<noteq> 0 \<and> sqlite_int d))) \<and>
   (length row < 2 \<longrightarrow>
      cliches_row stc row = stc\<lparr>errors := Suc (errors stc)\<rparr> \<and>
      names_row stn row = stn\<lparr>errors := Suc (errors stn)\<rparr> \<and>
      literary_terms_row stt row = stt\<lparr>errors := Suc (errors stt)\<rparr> \<and>
      sources_row sts row = sts\<lparr>errors := Suc (errors sts)\<rparr>) \<and>
   (length row = 2 \<longrightarrow>
      (count (cliches_row stc row) = Suc (count stc) \<longleftrightarrow>
         (\<exists>n. py_int (row ! 0) = Inr n \<and> n \<noteq> 0 \<and> sqlite_int n)) \<and>
      (count (names_row stn row) = Suc (count stn) \<longleftrightarrow>
         (\<exists>n. py_int (row ! 0) = Inr n \<and> n \<noteq> 0 \<and> sqlite_int n)) \<and>
      (count (literary_terms_row stt row) = Suc (count stt) \<longleftrightarrow>
         (\<exists>n. py_int (row ! 0) = Inr n \<and> n \<noteq> 0 \<and> sqlite_int n)) \<and>
      (count (sources_row sts row) = Suc (count sts) \<longleftrightarrow>
         row ! 1 \<noteq> [] \<and> sqlite_int (next_source_id sts)))"
proof -
  let ?ok = "\<exists>n. py_int (row ! 0) = Inr n \<and> n \<noteq> 0 \<and> sqlite_int n"
  have i9: "items_row now sti row =
        sti\<lparr>printed := printed sti @ [Skipping_insufficient_columns (length row)],
            errors := Suc (errors sti)\<rparr>" if "length row < 10"
    using that by (simp add: items_row_def items_try_def)
  have i10: "(count (items_row now sti row) = Suc (count sti) \<longleftrightarrow> ?ok) \<and>
      printed (items_row now sti row) \<noteq> printed sti @ [Skipping_insufficient_columns 10]"
    if "length row = 10"
  proof -
    have "count (items_row now sti row) = Suc (count sti)" if ?ok
      using that \<open>length row = 10\<close> items_row_accept [of row _ now sti] by auto
    moreover have "count (items_row now sti row) \<noteq> Suc (count sti)" if "\<not> ?ok"
      using that items_row_reject [of row now sti] by auto
    moreover have "printed (items_row now sti row) \<noteq> printed sti @ [Skipping_insufficient_columns 10]"
      using \<open>length row = 10\<close> by (intro items_row_no_shape_message) simp
    ultimately show ?thesis by blast
  qed
  have l2: "links_row stl row = stl\<lparr>errors := Suc (errors stl)\<rparr>" if "length row < 3"
    using that by (simp add: links_row_def links_try_def)
  have l3: "count (links_row stl row) = Suc (count stl) \<longleftrightarrow>
         (\<exists>l s d. py_int (row ! 0) = Inr l \<and> l \<noteq> 0 \<and> sqlite_int l \<and>
                  py_int (row ! 1) = Inr s \<and> s \<noteq> 0 \<and> sqlite_int s \<and>
                  py_int (row ! 2) = Inr d \<and> d \<noteq> 0 \<and> sqlite_int d)" (is "_ \<longleftrightarrow> ?lok")
    if "length row = 3"
  proof -
    have "count (links_row stl row) = Suc (count stl)" if ?lok
      using that \<open>length row = 3\<close> links_row_accept [of row _ _ _ stl] by auto
    moreover have "count (links_row stl row) \<noteq> Suc (count stl)" if "\<not> ?lok"
      using that links_row_reject [of row stl] by auto
    ultimately show ?thesis by blast
  qed
  have s1: "cliches_row stc row = stc\<lparr>errors := Suc (errors stc)\<rparr> \<and>
      names_row stn row = stn\<lparr>errors := Suc (errors stn)\<rparr> \<and>
      literary_terms_row stt row = stt\<lparr>errors := Suc (errors stt)\<rparr> \<and>
      sources_row sts row = sts\<lparr>errors := Suc (errors sts)\<rparr>" if "length row < 2"
    using that
    by (simp add: cliches_row_def cliches_try_def names_row_def names_try_def
        literary_terms_row_def literary_terms_try_def sources_row_def sources_try_def)
  have c2: "count (cliches_row stc row) = Suc (count stc) \<longleftrightarrow> ?ok" if "length row = 2"
  proof -
    have "count (cliches_row stc row) = Suc (count stc)" if ?ok
      using that \<open>length row = 2\<close> cliches_row_accept [of row _ stc] by auto
    moreover have "count (cliches_row stc row) \<noteq> Suc (count stc)" if "\<not> ?ok"
      using that cliches_row_reject [of row stc] by auto
    ultimately show ?thesis by blast
  qed
  have t2: "count (literary_terms_row stt row) = Suc (count stt) \<longleftrightarrow> ?ok" if "length row = 2"
  proof -
    have "count (literary_terms_row stt row) = Suc (count stt)" if ?ok
      using that \<open>length row = 2\<close> literary_terms_row_accept [of row _ stt] by auto
    moreover have "count (literary_terms_row stt row) \<noteq> Suc (count stt)" if "\<not> ?ok"
      using that literary_terms_row_reject [of row stt] by auto
    ultimately show ?thesis by blast
  qed
  have n2: "count (names_row stn row) = Suc (count stn) \<longleftrightarrow> ?ok" if "length row = 2"
  proof -
    have "count (names_row stn row) = Suc (count stn)" if ?ok
      using that \<open>length row = 2\<close> names_row_accept [of row _ stn] by auto
    moreover have "count (names_row stn row) \<noteq> Suc (count stn)" if "\<not> ?ok"
      using that \<open>length row = 2\<close> names_row_reject [of row stn] by auto
    ultimately show ?thesis by blast
  qed
  have so2: "count (sources_row sts row) = Suc (count sts) \<longleftrightarrow>
      row ! 1 \<noteq> [] \<and> sqlite_int (next_source_id sts)" if "length row = 2"
  proof -
    have title: "sources_title row = row ! 1" using that by (simp add: sources_title_def)
    have "count (sources_row sts row) = Suc (count sts)"
      if "row ! 1 \<noteq> [] \<and> sqlite_int (next_source_id sts)"
      using that \<open>length row = 2\<close> title sources_row_accept [of row sts] by auto
    moreover have "count (sources_row sts row) \<noteq> Suc (count sts)"
      if "\<not> (row ! 1 \<noteq> [] \<and> sqlite_int (next_source_id sts))"
      using that title sources_row_reject [of row sts] by auto
    ultimately show ?thesis by blast
  qed
  from i9 i10 l2 l3 s1 c2 n2 t2 so2 show ?thesis by blast
qed

lemma py_int_5: "py_int (ustr ''5'') = Inr 5"
  by code_simp

lemma py_int_1: "py_int (ustr ''1'') = Inr 1"
  by code_simp

lemma py_int_2: "py_int (ustr ''2'') = Inr 2"
  by code_simp

lemma sqlite_int_5: "sqlite_int 5" and sqlite_int_1: "sqlite_int 1" and sqlite_int_2: "sqlite_int 2"
  by (simp_all add: sqlite_int_def)

text \<open>
  The theorem at rows one field short (nine fields for an item, two for a link, one for a
  cliche) and at rows of exactly the minimum with a valid identity.
\<close>

theorem shape_check_witness:
  "errors (items_row (ustr ''2024-01-01'') (start [])
      [ustr ''7'', ustr ''glimmer'', ustr ''Word'', ustr ''a faint light'', [], [], [], [], []]) = 1 \<and>
   table (items_row (ustr ''2024-01-01'') (start [])
      [ustr ''7'', ustr ''glimmer'', ustr ''Word'', ustr ''a faint light'', [], [], [], [], []]) = [] \<and>
   count (items_row (ustr ''2024-01-01'') (start [])
      [ustr ''7'', ustr ''glimmer'', ustr ''Word'', ustr ''a faint light'', [], [], [], [], [],
       ustr ''2024-01-01'']) = 1 \<and>
   errors (links_row (start []) [ustr ''5'', ustr ''1'']) = 1 \<and>
   count (links_row (start []) [ustr ''5'', ustr ''1'', ustr ''2'']) = 1 \<and>
   errors (cliches_row (start []) [ustr ''7'']) = 1 \<and>
   count (cliches_row (start []) [ustr ''7'', ustr ''dead as a doornail'']) = 1"
proof -
  let ?now = "ustr ''2024-01-01''"
  let ?i9 = "[ustr ''7'', ustr ''glimmer'', ustr ''Word'', ustr ''a faint light'', [], [], [], [], []]"
  let ?i10 = "[ustr ''7'', ustr ''glimmer'', ustr ''Word'', ustr ''a faint light'', [], [], [], [], [],
       ustr ''2024-01-01'']"
  let ?l2 = "[ustr ''5'', ustr ''1'']"
  let ?l3 = "[ustr ''5'', ustr ''1'', ustr ''2'']"
  let ?c1 = "[ustr ''7'']"
  let ?c2 = "[ustr ''7'', ustr ''dead as a doornail'']"
  let ?s = "\<lparr>table = [], count = 0, errors = 0, printed = [], next_source_id = 1000\<rparr>"
  have ok10: "\<exists>n. py_int (?i10 ! 0) = Inr n \<and> n \<noteq> 0 \<and> sqlite_int n"
    using py_int_7 sqlite_int_7 by simp
  have okc: "\<exists>n. py_int (?c2 ! 0) = Inr n \<and> n \<noteq> 0 \<and> sqlite_int n"
    using py_int_7 sqlite_int_7 by simp
  have okl: "\<exists>l s d. py_int (?l3 ! 0) = Inr l \<and> l \<noteq> 0 \<and> sqlite_int l \<and>
                  py_int (?l3 ! 1) = Inr s \<and> s \<noteq> 0 \<and> sqlite_int s \<and>
                  py_int (?l3 ! 2) = Inr d \<and> d \<noteq> 0 \<and> sqlite_int d"
    using py_int_5 py_int_1 py_int_2 sqlite_int_5 sqlite_int_1 sqlite_int_2 by simp
  have len: "length ?i9 < 10" "length ?i10 = 10" "length ?l2 < 3" "length ?l3 = 3"
    "length ?c1 < 2" "length ?c2 = 2"
    by simp_all
  have a: "items_row ?now (start []) ?i9 =
      (start [])\<lparr>printed := printed (start [] :: item_row import_state) @
          [Skipping_insufficient_columns (length ?i9)],
        errors := Suc (errors (start [] :: item_row import_state))\<rparr>"
    using shape_check [of ?i9 ?now "start []" "start []" "start []" "start []" "start []" ?s] len(1)
    by blast
  have b: "count (items_row ?now (start []) ?i10) = Suc (count (start [] :: item_row import_state))"
    using shape_check [of ?i10 ?now "start []" "start []" "start []" "start []" "start []" ?s]
      len(2) ok10 by blast
  have c: "links_row (start []) ?l2 =
      (start [])\<lparr>errors := Suc (errors (start [] :: link_row import_state))\<rparr>"
    using shape_check [of ?l2 ?now "start []" "start []" "start []" "start []" "start []" ?s] len(3)
    by blast
  have d: "count (links_row (start []) ?l3) = Suc (count (start [] :: link_row import_state))"
    using shape_check [of ?l3 ?now "start []" "start []" "start []" "start []" "start []" ?s]
      len(4) okl by blast
  have e: "cliches_row (start []) ?c1 =
      (start [])\<lparr>errors := Suc (errors (start [] :: cliche_row import_state))\<rparr>"
    using shape_check [of ?c1 ?now "start []" "start []" "start []" "start []" "start []" ?s] len(5)
    by blast
  have f: "count (cliches_row (start []) ?c2) = Suc (count (start [] :: cliche_row import_state))"
    using shape_check [of ?c2 ?now "start []" "start []" "start []" "start []" "start []" ?s]
      len(6) okc by blast
  show ?thesis
    unfolding a b c d e f by (simp add: start_def)
qed

section \<open>The first-encountered row is kept\<close>







section \<open>Printing the row\<close>

lemma run_shown:
  assumes "\<And>st row. filter P (printed (body st row)) = filter P (printed st) @ f row"
  shows "filter P (printed (foldl body st rows)) = filter P (printed st) @ concat (map f rows)"
  by (induction rows arbitrary: st) (simp_all add: assms)

lemma quoted_no_raise: "\<not> raises x \<Longrightarrow> quoted x = []"
  by (simp add: quoted_def)

lemma quoted_raise:
  "raises x \<Longrightarrow> filter shows_row [Error_importing ValueError (py_int_message x)] = quoted x"
  by (simp add: quoted_def)

lemma quoted_not_row_data: "filter is_row_data (quoted x) = []" "filter shows_row (quoted x) = quoted x"
  by (simp_all add: quoted_def)

subsection \<open>The lines of a cliche, a literary term and a source\<close>

lemma cliches_row_shown:
  "filter shows_row (printed (cliches_row st row)) = filter shows_row (printed st) @ cliches_shown row"
proof (cases "length row < 2")
  case True
  then show ?thesis by (simp add: cliches_row_def cliches_try_def cliches_shown_def)
next
  case len: False
  show ?thesis
  proof (cases "row ! 0" rule: ident_cases)
    case (ok n)
    then have "quoted (row ! 0) = []" by (simp add: quoted_no_raise raises_def)
    with ok(3) len show ?thesis
      by (simp add: cliches_row_def cliches_try_def cliches_shown_def truthy_def execute_insert_def)
  next
    case zero
    then have "quoted (row ! 0) = []" by (simp add: quoted_no_raise raises_def)
    with zero(2) len show ?thesis
      by (simp add: cliches_row_def cliches_try_def cliches_shown_def truthy_def)
  next
    case empty
    then have "quoted (row ! 0) = []" by (simp add: quoted_no_raise raises_def)
    with empty(2) len show ?thesis
      by (simp add: cliches_row_def cliches_try_def cliches_shown_def truthy_def)
  next
    case bad
    then have "raises (row ! 0)" by (simp add: raises_def)
    from quoted_raise [OF this] bad(3) len show ?thesis
      by (simp add: cliches_row_def cliches_try_def cliches_shown_def)
  qed
qed

lemma literary_terms_row_shown:
  "filter shows_row (printed (literary_terms_row st row)) =
     filter shows_row (printed st) @ literary_terms_shown row"
proof (cases "length row < 2")
  case True
  then show ?thesis
    by (simp add: literary_terms_row_def literary_terms_try_def literary_terms_shown_def)
next
  case len: False
  show ?thesis
  proof (cases "row ! 0" rule: ident_cases)
    case (ok n)
    then have "quoted (row ! 0) = []" by (simp add: quoted_no_raise raises_def)
    with ok(3) len show ?thesis
      by (simp add: literary_terms_row_def literary_terms_try_def literary_terms_shown_def
          truthy_def execute_insert_def)
  next
    case zero
    then have "quoted (row ! 0) = []" by (simp add: quoted_no_raise raises_def)
    with zero(2) len show ?thesis
      by (simp add: literary_terms_row_def literary_terms_try_def literary_terms_shown_def
          truthy_def)
  next
    case empty
    then have "quoted (row ! 0) = []" by (simp add: quoted_no_raise raises_def)
    with empty(2) len show ?thesis
      by (simp add: literary_terms_row_def literary_terms_try_def literary_terms_shown_def
          truthy_def)
  next
    case bad
    then have "raises (row ! 0)" by (simp add: raises_def)
    from quoted_raise [OF this] bad(3) len show ?thesis
      by (simp add: literary_terms_row_def literary_terms_try_def literary_terms_shown_def)
  qed
qed

lemma sources_row_shown:
  "filter shows_row (printed (sources_row st row)) = filter shows_row (printed st)"
  by (simp add: sources_row_def sources_try_def execute_insert_def split: sum.splits prod.splits)

lemma cliches_row_data:
  "filter is_row_data (printed (cliches_row st row)) = filter is_row_data (printed st)"
  by (simp add: cliches_row_def cliches_try_def execute_insert_def split: sum.splits prod.splits)

lemma literary_terms_row_data:
  "filter is_row_data (printed (literary_terms_row st row)) = filter is_row_data (printed st)"
  by (simp add: literary_terms_row_def literary_terms_try_def execute_insert_def
      split: sum.splits prod.splits)

lemma links_row_data:
  "filter is_row_data (printed (links_row st row)) = filter is_row_data (printed st)"
  by (simp add: links_row_def links_try_def execute_insert_def split: sum.splits prod.splits)

lemma sources_row_data:
  "filter is_row_data (printed (sources_row st row)) = filter is_row_data (printed st)"
  by (simp add: sources_row_def sources_try_def execute_insert_def split: sum.splits prod.splits)

subsection \<open>The lines of an item\<close>

lemma items_row_quoted:
  "filter (\<lambda>e. shows_row e \<and> \<not> is_row_data e) (printed (items_row now st row)) =
     filter (\<lambda>e. shows_row e \<and> \<not> is_row_data e) (printed st) @ items_shown row"
proof (cases "length row < 10")
  case True
  then show ?thesis by (simp add: items_row_def items_try_def items_shown_def)
next
  case len: False
  show ?thesis
  proof (cases "row ! 0" rule: ident_cases)
    case (ok n)
    then have "quoted (row ! 0) = []" by (simp add: quoted_no_raise raises_def)
    with ok(3) len show ?thesis
      by (simp add: items_row_def items_try_def items_shown_def truthy_def execute_insert_def
          Let_def)
  next
    case zero
    then have "quoted (row ! 0) = []" by (simp add: quoted_no_raise raises_def)
    with zero(2) len show ?thesis
      by (simp add: items_row_def items_try_def items_shown_def truthy_def)
  next
    case empty
    then have "quoted (row ! 0) = []" by (simp add: quoted_no_raise raises_def)
    with empty(2) len show ?thesis
      by (simp add: items_row_def items_try_def items_shown_def truthy_def)
  next
    case bad
    then have r: "raises (row ! 0)" by (simp add: raises_def)
    have "quoted (row ! 0) = (if quotes_field (py_int_message (row ! 0))
        then [Error_importing ValueError (py_int_message (row ! 0))] else [])"
      using r by (simp add: quoted_def)
    with bad(3) len show ?thesis
      by (simp add: items_row_def items_try_def items_shown_def Let_def)
  qed
qed

lemma items_row_data:
  assumes "length (filter is_row_data (printed st)) \<le> errors st"
    and "length (filter is_row_data (printed st)) \<le> 4"
  shows "length (filter is_row_data (printed (items_row now st row))) \<le> errors (items_row now st row) \<and>
         length (filter is_row_data (printed (items_row now st row))) \<le> 4"
proof (cases "length row < 10")
  case True
  with assms show ?thesis by (simp add: items_row_def items_try_def)
next
  case len: False
  show ?thesis
  proof (cases "row ! 0" rule: ident_cases)
    case (ok n)
    with assms len show ?thesis
      by (auto simp: items_row_def items_try_def truthy_def execute_insert_def Let_def)
  next
    case zero
    with assms len show ?thesis
      by (simp add: items_row_def items_try_def truthy_def)
  next
    case empty
    with assms len show ?thesis
      by (simp add: items_row_def items_try_def truthy_def)
  next
    case bad
    with assms len show ?thesis
      by (auto simp: items_row_def items_try_def Let_def)
  qed
qed

lemma items_run_data:
  assumes "length (filter is_row_data (printed st)) \<le> errors st"
    and "length (filter is_row_data (printed st)) \<le> 4"
  shows "length (filter is_row_data (printed (foldl (items_row now) st rows))) \<le> 4"
  using assms
proof (induction rows arbitrary: st)
  case Nil
  then show ?case by simp
next
  case (Cons row rows)
  from items_row_data [OF Cons.prems, of now row] show ?case
    by (simp add: Cons.IH)
qed

subsection \<open>The lines of a link\<close>

lemma take_3: "3 \<le> length row \<Longrightarrow> take 3 row = [row ! 0, row ! 1, row ! 2]"
proof -
  assume "3 \<le> length row"
  then obtain a b c rest where "row = a # b # c # rest"
    by (metis Suc_le_length_iff numeral_3_eq_3)
  then show ?thesis by (simp add: numeral_3_eq_3)
qed

lemma links_row_shown:
  "filter shows_row (printed (links_row st row)) = filter shows_row (printed st) @ links_shown row"
proof (cases "length row < 3")
  case True
  then show ?thesis by (simp add: links_row_def links_try_def links_shown_def)
next
  case False
  then have len: "\<not> length row < 3" and t: "take 3 row = [row ! 0, row ! 1, row ! 2]"
    by (simp_all add: take_3)
  have sh: "links_shown row = (case find raises [row ! 0, row ! 1, row ! 2] of
      None \<Rightarrow> [] | Some x \<Rightarrow> quoted x)"
    using False by (simp add: links_shown_def t)
  show ?thesis
  proof (cases "int_or_none (row ! 0)")
    case (Inl e)
    from int_or_none_raise [OF this] have e: "e = (ValueError, py_int_message (row ! 0))"
      and r: "raises (row ! 0)" by simp_all
    from Inl len quoted_raise [OF r] r show ?thesis
      by (simp add: links_row_def links_try_def sh e)
  next
    case a: (Inr v0)
    then have r0: "\<not> raises (row ! 0)" by (rule int_or_none_no_raise)
    show ?thesis
    proof (cases "int_or_none (row ! 1)")
      case (Inl e)
      from int_or_none_raise [OF this] have e: "e = (ValueError, py_int_message (row ! 1))"
        and r: "raises (row ! 1)" by simp_all
      from Inl a len quoted_raise [OF r] r r0 show ?thesis
        by (simp add: links_row_def links_try_def sh e)
    next
      case b: (Inr v1)
      then have r1: "\<not> raises (row ! 1)" by (rule int_or_none_no_raise)
      show ?thesis
      proof (cases "int_or_none (row ! 2)")
        case (Inl e)
        from int_or_none_raise [OF this] have e: "e = (ValueError, py_int_message (row ! 2))"
          and r: "raises (row ! 2)" by simp_all
        from Inl a b len quoted_raise [OF r] r r0 r1 show ?thesis
          by (simp add: links_row_def links_try_def sh e)
      next
        case c: (Inr v2)
        then have r2: "\<not> raises (row ! 2)" by (rule int_or_none_no_raise)
        from a b c len r0 r1 r2 show ?thesis
          by (auto simp: links_row_def links_try_def sh execute_insert_def)
      qed
    qed
  qed
qed

subsection \<open>The lines of a name\<close>

lemma names_insert_shown:
  "filter shows_row (printed (case names_insert st row v of Inr st' \<Rightarrow> st'
        | Inl (e, m) \<Rightarrow>
            st\<lparr>printed := printed st @ [Error_importing e m], errors := errors st + 1\<rparr>))
     = filter shows_row (printed st)"
  by (simp add: names_insert_def execute_insert_def split: sum.splits prod.splits)

lemma names_insert_data:
  "filter is_row_data (printed (case names_insert st row v of Inr st' \<Rightarrow> st'
        | Inl (e, m) \<Rightarrow>
            st\<lparr>printed := printed st @ [Error_importing e m], errors := errors st + 1\<rparr>))
     = filter is_row_data (printed st)"
  by (simp add: names_insert_def execute_insert_def split: sum.splits prod.splits)

lemma isdigit_nonempty: "isdigit s \<Longrightarrow> s \<noteq> []"
  by (simp add: isdigit_def)

lemma names_row_shown:
  "filter shows_row (printed (names_row st row)) = filter shows_row (printed st) @ names_shown row"
proof (cases "length row < 2")
  case True
  then show ?thesis by (simp add: names_row_def names_try_def names_shown_def)
next
  case len: False
  show ?thesis
  proof (cases "row ! 0" rule: ident_cases)
    case (ok n)
    then have "\<not> raises (row ! 0)" by (simp add: raises_def)
    with names_insert_shown [of st row "Some n"] ok len show ?thesis
      by (simp add: names_row_def names_try_def names_shown_def)
  next
    case zero
    then have "\<not> raises (row ! 0)" by (simp add: raises_def)
    with names_insert_shown [of st row "Some 0"] zero len show ?thesis
      by (simp add: names_row_def names_try_def names_shown_def)
  next
    case empty
    then have "\<not> raises (row ! 0)" by (simp add: raises_def)
    with names_insert_shown [of st row None] empty len show ?thesis
      by (simp add: names_row_def names_try_def names_shown_def)
  next
    case bad
    then have r: "raises (row ! 0)" by (simp add: raises_def)
    show ?thesis
    proof (cases "length row > 2 \<and> isdigit (row ! 2)")
      case False
      with bad(3) r len show ?thesis
        by (auto simp: names_row_def names_try_def names_shown_def)
    next
      case fb: True
      then have ne: "row ! 2 \<noteq> []" by (simp add: isdigit_nonempty)
      show ?thesis
      proof (cases "py_int (row ! 2)")
        case (Inl e)
        then have e: "e = ValueError" by (rule py_int_raises)
        with Inl ne have "raises (row ! 2)" by (simp add: raises_def)
        from quoted_raise [OF this] bad(3) r fb Inl e len show ?thesis
          by (simp add: names_row_def names_try_def names_shown_def)
      next
        case (Inr n)
        then have "quoted (row ! 2) = []" by (simp add: quoted_no_raise raises_def)
        with names_insert_shown [of st row "Some n"] bad(3) r fb Inr len show ?thesis
          by (simp add: names_row_def names_try_def names_shown_def)
      qed
    qed
  qed
qed

lemma names_row_data:
  "filter is_row_data (printed (names_row st row)) = filter is_row_data (printed st)"
proof (cases "length row < 2")
  case True
  then show ?thesis by (simp add: names_row_def names_try_def)
next
  case len: False
  show ?thesis
  proof (cases "row ! 0" rule: ident_cases)
    case (ok n)
    with names_insert_data [of st row "Some n"] len show ?thesis
      by (simp add: names_row_def names_try_def)
  next
    case zero
    with names_insert_data [of st row "Some 0"] len show ?thesis
      by (simp add: names_row_def names_try_def)
  next
    case empty
    with names_insert_data [of st row None] len show ?thesis
      by (simp add: names_row_def names_try_def)
  next
    case bad
    show ?thesis
    proof (cases "py_int (row ! 2)")
      case (Inl e)
      with bad(3) len show ?thesis by (simp add: names_row_def names_try_def)
    next
      case (Inr n)
      with names_insert_data [of st row "Some n"] bad(3) len show ?thesis
        by (simp add: names_row_def names_try_def)
    qed
  qed
qed

subsection \<open>The lines of a run\<close>

lemma run_row_data:
  assumes "\<And>st row. filter is_row_data (printed (body st row)) = filter is_row_data (printed st)"
  shows "filter is_row_data (printed (foldl body st rows)) = filter is_row_data (printed st)"
  by (induction rows arbitrary: st) (simp_all add: assms)

lemma py_int_x: "py_int (ustr ''x'') = Inl ValueError"
  by code_simp

lemma py_int_message_x: "py_int_message (ustr ''x'') = Invalid_literal (ustr ''x'')"
  by code_simp

lemma raises_x: "raises (ustr ''x'')"
  using py_int_x by (simp add: raises_def)

lemma quoted_x: "quoted (ustr ''x'') = [Error_importing ValueError (Invalid_literal (ustr ''x''))]"
  using raises_x py_int_message_x by (simp add: quoted_def)

lemma raises_7: "\<not> raises (ustr ''7'')"
  using py_int_7 by (simp add: raises_def)

lemma replicate_6: "replicate 6 x = [x, x, x, x, x, x]"
  by (simp add: numeral_eq_Suc)

text \<open>
  Claim C8, as amended. The only capped output is the line "Row data" of
  \<^verbatim>\<open>import_items\<close>: its handler prints it only while \<open>errors\<close> is below 5, so a run
  prints it for at most four rows, and no other loop prints it. The other lines that show
  a field of the row are printed for every row that meets their condition, whatever the
  number of rows before it: in every loop but the one of the sources the handler prints
  the text of the exception, and the text of \<^verbatim>\<open>int\<close> for an invalid literal quotes the
  identity column it was given; \<^verbatim>\<open>import_names\<close> moreover prints the whole row for
  every row with at least two fields whose first field makes \<^verbatim>\<open>int\<close> raise and whose
  third field is missing or not all digits. \<^verbatim>\<open>import_sources\<close> prints no field of a row.
\<close>

theorem row_context_printed:
  "length (filter is_row_data (printed (import_items clock ci rows))) \<le> 4 \<and>
   filter is_row_data (printed (import_links cl rows)) = [] \<and>
   filter is_row_data (printed (import_cliches cc rows)) = [] \<and>
   filter is_row_data (printed (import_names cn rows)) = [] \<and>
   filter is_row_data (printed (import_literary_terms ct rows)) = [] \<and>
   filter is_row_data (printed (import_sources cs rows)) = [] \<and>
   filter (\<lambda>e. shows_row e \<and> \<not> is_row_data e) (printed (import_items clock ci rows)) =
     concat (map items_shown rows) \<and>
   filter shows_row (printed (import_links cl rows)) = concat (map links_shown rows) \<and>
   filter shows_row (printed (import_cliches cc rows)) = concat (map cliches_shown rows) \<and>
   filter shows_row (printed (import_names cn rows)) = concat (map names_shown rows) \<and>
   filter shows_row (printed (import_literary_terms ct rows)) =
     concat (map literary_terms_shown rows) \<and>
   filter shows_row (printed (import_sources cs rows)) = []"
proof -
  have i: "length (filter is_row_data (printed (import_items clock ci rows))) \<le> 4"
    unfolding import_items_def items_loop_fold [of clock 0 _ rows "[]"]
    by (rule items_run_data) (simp_all add: start_def)
  have l: "filter is_row_data (printed (import_links cl rows)) = []"
    unfolding import_links_def
    by (subst run_row_data [of links_row, OF links_row_data]) (simp add: start_def)
  have c: "filter is_row_data (printed (import_cliches cc rows)) = []"
    unfolding import_cliches_def
    by (subst run_row_data [of cliches_row, OF cliches_row_data]) (simp add: start_def)
  have n: "filter is_row_data (printed (import_names cn rows)) = []"
    unfolding import_names_def
    by (subst run_row_data [of names_row, OF names_row_data]) (simp add: start_def)
  have t: "filter is_row_data (printed (import_literary_terms ct rows)) = []"
    unfolding import_literary_terms_def
    by (subst run_row_data [of literary_terms_row, OF literary_terms_row_data])
      (simp add: start_def)
  have s: "filter is_row_data (printed (import_sources cs rows)) = []"
    unfolding import_sources_def
    by (subst run_row_data [of sources_row, OF sources_row_data]) simp
  have i': "filter (\<lambda>e. shows_row e \<and> \<not> is_row_data e) (printed (import_items clock ci rows)) =
     concat (map items_shown rows)"
    unfolding import_items_def items_loop_fold [of clock 0 _ rows "[]"]
    by (subst run_shown [of _ "items_row []", OF items_row_quoted]) (simp add: start_def)
  have l': "filter shows_row (printed (import_links cl rows)) = concat (map links_shown rows)"
    unfolding import_links_def
    by (subst run_shown [of _ links_row, OF links_row_shown]) (simp add: start_def)
  have c': "filter shows_row (printed (import_cliches cc rows)) = concat (map cliches_shown rows)"
    unfolding import_cliches_def
    by (subst run_shown [of _ cliches_row, OF cliches_row_shown]) (simp add: start_def)
  have n': "filter shows_row (printed (import_names cn rows)) = concat (map names_shown rows)"
    unfolding import_names_def
    by (subst run_shown [of _ names_row, OF names_row_shown]) (simp add: start_def)
  have t': "filter shows_row (printed (import_literary_terms ct rows)) =
     concat (map literary_terms_shown rows)"
    unfolding import_literary_terms_def
    by (subst run_shown [of _ literary_terms_row, OF literary_terms_row_shown])
      (simp add: start_def)
  have s': "filter shows_row (printed (import_sources cs rows)) = []"
    unfolding import_sources_def
    by (subst run_shown [of _ sources_row "\<lambda>row. []", simplified, OF sources_row_shown]) simp
  show ?thesis
    by (intro conjI) (fact i l c n t s i' l' c' n' t' s')+
qed

text \<open>
  The theorem at six item rows of ten fields whose identity is \<^verbatim>\<open>x\<close>: "Row data" is
  printed at most four times, and the six texts of the exception all quote the field. At
  a link row whose second column is \<^verbatim>\<open>x\<close>, and at two name rows of which the first has
  an invalid identity, the lines are the ones given.
\<close>

theorem row_context_printed_witness:
  "length (filter is_row_data (printed (import_items (\<lambda>i. []) []
      (replicate 6 [ustr ''x'', [], [], [], [], [], [], [], [], []])))) \<le> 4 \<and>
   filter (\<lambda>e. shows_row e \<and> \<not> is_row_data e) (printed (import_items (\<lambda>i. []) []
      (replicate 6 [ustr ''x'', [], [], [], [], [], [], [], [], []]))) =
     replicate 6 (Error_importing ValueError (Invalid_literal (ustr ''x''))) \<and>
   filter shows_row (printed (import_links [] [[ustr ''7'', ustr ''x'', ustr ''7'']])) =
     [Error_importing ValueError (Invalid_literal (ustr ''x''))] \<and>
   filter shows_row (printed (import_names []
      [[ustr ''x'', ustr ''Adams''], [ustr ''7'', ustr ''Adams'']])) =
     [Skipping_invalid_ID [ustr ''x'', ustr ''Adams'']]"
proof -
  let ?irows = "replicate 6 [ustr ''x'', [], [], [], [], [], [], [], [], []]"
  let ?lrows = "[[ustr ''7'', ustr ''x'', ustr ''7'']]"
  let ?nrows = "[[ustr ''x'', ustr ''Adams''], [ustr ''7'', ustr ''Adams'']]"
  have fi: "concat (map items_shown ?irows) =
      replicate 6 (Error_importing ValueError (Invalid_literal (ustr ''x'')))"
    using quoted_x by (simp add: items_shown_def replicate_6)
  have fl: "concat (map links_shown ?lrows) =
      [Error_importing ValueError (Invalid_literal (ustr ''x''))]"
    using quoted_x raises_x raises_7 by (simp add: links_shown_def)
  have fn: "concat (map names_shown ?nrows) = [Skipping_invalid_ID [ustr ''x'', ustr ''Adams'']]"
    using raises_x raises_7 by (simp add: names_shown_def)
  from row_context_printed [of "\<lambda>i. []" "[]" ?irows "[]" "[]" "[]" "[]" "[]"]
  have a: "length (filter is_row_data (printed (import_items (\<lambda>i. []) [] ?irows))) \<le> 4"
    and b: "filter (\<lambda>e. shows_row e \<and> \<not> is_row_data e) (printed (import_items (\<lambda>i. []) [] ?irows)) =
      concat (map items_shown ?irows)"
    by blast+
  from row_context_printed [of "\<lambda>i. []" "[]" ?lrows "[]" "[]" "[]" "[]" "[]"]
  have c: "filter shows_row (printed (import_links [] ?lrows)) = concat (map links_shown ?lrows)"
    by blast
  from row_context_printed [of "\<lambda>i. []" "[]" ?nrows "[]" "[]" "[]" "[]" "[]"]
  have d: "filter shows_row (printed (import_names [] ?nrows)) = concat (map names_shown ?nrows)"
    by blast
  show ?thesis
    by (intro conjI) (fact a, fact b [unfolded fi], fact c [unfolded fl], fact d [unfolded fn])
qed

text \<open>
  Claim C8 as stated fails for the names: no constant bounds the number of rows whose
  fields \<^verbatim>\<open>import_names\<close> prints. An input of \<open>K + 1\<close> rows \<^verbatim>\<open>x,Adams\<close> prints
  \<open>K + 1\<close> of them.
\<close>

theorem names_row_context_unbounded:
  "\<not> (\<exists>K. \<forall>rows. length (filter shows_row (printed (import_names [] rows))) \<le> K)"
proof
  assume "\<exists>K. \<forall>rows. length (filter shows_row (printed (import_names [] rows))) \<le> K"
  then obtain K where K: "length (filter shows_row (printed (import_names [] rows))) \<le> K" for rows
    by blast
  let ?bad = "[ustr ''x'', ustr ''Adams'']"
  let ?rows = "replicate (Suc K) ?bad"
  have one: "names_shown ?bad = [Skipping_invalid_ID ?bad]"
    using raises_x by (simp add: names_shown_def)
  have len: "length (concat (map names_shown (replicate n ?bad))) = n" for n
    using one by (induction n) simp_all
  have "filter shows_row (printed (import_names [] ?rows)) = concat (map names_shown ?rows)"
    unfolding import_names_def
    by (subst run_shown [of _ names_row, OF names_row_shown]) (simp add: start_def)
  then have "length (filter shows_row (printed (import_names [] ?rows))) = Suc K"
    by (simp only: len)
  with K [of ?rows] show False by simp
qed

section \<open>What is stored for a name and for an item\<close>

lemma names_inserts_values:
  "r \<in> set (inserts names_row row) \<Longrightarrow> \<exists>n. r = names_values n row"
proof (cases "2 \<le> length row \<and> (\<exists>n. py_int (row ! 0) = Inr n \<and> n \<noteq> 0 \<and> sqlite_int n)")
  case True
  then obtain n where n: "2 \<le> length row" "py_int (row ! 0) = Inr n" "n \<noteq> 0" "sqlite_int n"
    by auto
  assume "r \<in> set (inserts names_row row)"
  then show ?thesis
    by (auto simp: inserts_def names_row_accept [OF n] start_def insert_or_ignore_Nil)
next
  case primary: False
  assume r: "r \<in> set (inserts names_row row)"
  show ?thesis
  proof (cases "2 < length row \<and> row ! 0 \<noteq> [] \<and> py_int (row ! 0) = Inl ValueError \<and>
            isdigit (row ! 2) \<and> (\<exists>n. py_int (row ! 2) = Inr n \<and> n \<noteq> 0 \<and> sqlite_int n)")
    case True
    then obtain n where n: "2 < length row" "row ! 0 \<noteq> []" "py_int (row ! 0) = Inl ValueError"
        "isdigit (row ! 2)" "py_int (row ! 2) = Inr n" "n \<noteq> 0" "sqlite_int n"
      by auto
    from r show ?thesis
      by (auto simp: inserts_def names_row_fallback [OF n] start_def insert_or_ignore_Nil)
  next
    case False
    from names_row_reject [OF primary False, of "start []"] r show ?thesis
      by (simp add: inserts_def start_def)
  qed
qed

lemma foldl_insert_set:
  "set (foldl (\<lambda>t r. insert_or_ignore key r t) t rs) \<subseteq> set t \<union> set rs"
proof (induction rs arbitrary: t)
  case Nil
  then show ?case by simp
next
  case (Cons r rs)
  have "set (insert_or_ignore key r t) \<subseteq> set t \<union> {r}"
    by (auto simp: insert_or_ignore_def)
  with Cons [of "insert_or_ignore key r t"] show ?case by auto
qed

text \<open>
  Claim C9. A name row accepted through the fallback (more than two fields, a first field
  that is not empty and not an integer literal, an all-digit third field that converts to
  a non-zero integer of 64 bits) is stored with the columns of the primary layout: the
  name is the second field, the type is the third field (the digits of the identity),
  and the gender is the fourth field when the row has one and absent otherwise. For a
  name row of either layout the inserted description and notes are absent, so after a run
  every stored name that was not there before has neither.
\<close>

theorem names_fallback_mapping:
  "(2 < length row \<and> row ! 0 \<noteq> [] \<and> py_int (row ! 0) = Inl ValueError \<and>
    isdigit (row ! 2) \<and> py_int (row ! 2) = Inr n \<and> n \<noteq> 0 \<and> sqlite_int n \<longrightarrow>
      names_row st row =
        st\<lparr>table := insert_or_ignore name_id
               \<lparr>name_id = n, name_name = row ! 1, name_type = Some (row ! 2),
                name_gender = (if 3 < length row then Some (row ! 3) else None),
                name_description = None, name_notes = None\<rparr> (table st),
           count := Suc (count st)\<rparr>) \<and>
   (\<forall>r\<in>set (inserts names_row row). name_description r = None \<and> name_notes r = None) \<and>
   (\<forall>r\<in>set (table (import_names cn rows)).
      r \<in> set cn \<or> (name_description r = None \<and> name_notes r = None))"
proof -
  have a: "names_row st row =
        st\<lparr>table := insert_or_ignore name_id
               \<lparr>name_id = n, name_name = row ! 1, name_type = Some (row ! 2),
                name_gender = (if 3 < length row then Some (row ! 3) else None),
                name_description = None, name_notes = None\<rparr> (table st),
           count := Suc (count st)\<rparr>"
    if "2 < length row" "row ! 0 \<noteq> []" "py_int (row ! 0) = Inl ValueError"
      "isdigit (row ! 2)" "py_int (row ! 2) = Inr n" "n \<noteq> 0" "sqlite_int n"
    using that by (simp add: names_row_fallback [OF that] names_values_def)
  have b: "name_description r = None \<and> name_notes r = None" if "r \<in> set (inserts names_row row)"
    for r row
    using names_inserts_values [OF that] by (auto simp: names_values_def)
  have c: "r \<in> set cn \<or> (name_description r = None \<and> name_notes r = None)"
    if "r \<in> set (table (import_names cn rows))" for r
  proof -
    have "table (import_names cn rows) =
        foldl (\<lambda>t r. insert_or_ignore name_id r t) cn (concat (map (inserts names_row) rows))"
      unfolding import_names_def
      using import_fold [of names_row name_id "inserts names_row" "start cn" rows, OF names_step]
      by (simp add: start_def)
    with that foldl_insert_set [of name_id cn "concat (map (inserts names_row) rows)"]
    have "r \<in> set cn \<or> r \<in> set (concat (map (inserts names_row) rows))" by auto
    then show ?thesis using b by auto
  qed
  from a b c show ?thesis by blast
qed

text \<open>
  Claim C10. An accepted item row has at least ten fields, so the stored category is the
  third field and the stored modification time is the tenth field: the defaults
  \<^verbatim>\<open>'Reference'\<close> and the current time are never used. The loop body and the whole
  import give the same result whatever the clock says.
\<close>

theorem item_defaults_unreachable:
  "(count (items_row now st row) = Suc (count st) \<longrightarrow>
      10 \<le> length row \<and>
      (\<exists>r. items_row now st row =
              st\<lparr>table := insert_or_ignore item_id r (table st), count := Suc (count st)\<rparr> \<and>
            item_type r = row ! 2 \<and> item_modified_at r = row ! 9)) \<and>
   (\<forall>r\<in>set (inserts (items_row now) row).
      10 \<le> length row \<and> item_type r = row ! 2 \<and> item_modified_at r = row ! 9) \<and>
   items_row now st row = items_row now' st row \<and>
   import_items clock ci rows = import_items clock' ci rows"
proof -
  let ?ok = "10 \<le> length row \<and> (\<exists>n. py_int (row ! 0) = Inr n \<and> n \<noteq> 0 \<and> sqlite_int n)"
  have vals: "item_type (items_values now n row) = row ! 2 \<and>
      item_modified_at (items_values now n row) = row ! 9" if "10 \<le> length row" for n
    using that by (simp add: items_values_def)
  have a: "10 \<le> length row \<and>
      (\<exists>r. items_row now st row =
              st\<lparr>table := insert_or_ignore item_id r (table st), count := Suc (count st)\<rparr> \<and>
            item_type r = row ! 2 \<and> item_modified_at r = row ! 9)"
    if acc: "count (items_row now st row) = Suc (count st)"
  proof -
    have ?ok
    proof (rule ccontr)
      assume "\<not> ?ok"
      from items_row_reject [OF this, of now st] acc show False by simp
    qed
    then obtain n where n: "10 \<le> length row" "py_int (row ! 0) = Inr n" "n \<noteq> 0" "sqlite_int n"
      by auto
    from items_row_accept [OF n, of now st] vals [OF n(1), of n] n(1) show ?thesis by blast
  qed
  have b: "10 \<le> length row \<and> item_type r = row ! 2 \<and> item_modified_at r = row ! 9"
    if r: "r \<in> set (inserts (items_row now) row)" for r
  proof (cases ?ok)
    case True
    then obtain n where n: "10 \<le> length row" "py_int (row ! 0) = Inr n" "n \<noteq> 0" "sqlite_int n"
      by auto
    from r have "r = items_values now n row"
      by (simp add: inserts_def items_row_accept [OF n] start_def insert_or_ignore_Nil)
    with vals [OF n(1), of n] n(1) show ?thesis by simp
  next
    case False
    from items_row_reject [OF False, of now "start []"] r show ?thesis
      by (simp add: inserts_def start_def)
  qed
  have c: "items_row now st row = items_row now' st row"
    by (rule items_row_clock)
  have d: "import_items clock ci rows = import_items clock' ci rows"
    unfolding import_items_def
    by (simp add: items_loop_fold [of clock 0 _ rows "[]"] items_loop_fold [of clock' 0 _ rows "[]"])
  from a b c d show ?thesis by blast
qed

lemma py_int_1005: "py_int (ustr ''1005'') = Inr 1005"
  by code_simp

lemma sqlite_int_1005: "sqlite_int 1005"
  by (simp add: sqlite_int_def)

text \<open>A non-empty string of ASCII digits passes \<open>isdigit\<close>.\<close>

lemma isdigit_ascii:
  assumes "s \<noteq> []" and "list_all c_isdigit s"
  shows "isdigit s"
proof -
  have r: "digit_ranges = (48, 57) # tl digit_ranges"
    by (simp add: digit_ranges_def)
  have "list_ex (\<lambda>(lo, hi). lo \<le> c \<and> c \<le> hi) digit_ranges" if "c_isdigit c" for c
    by (subst r) (use that in \<open>simp add: c_isdigit_def\<close>)
  with assms(2) have "list_all (\<lambda>c. list_ex (\<lambda>(lo, hi). lo \<le> c \<and> c \<le> hi) digit_ranges) s"
    by (simp add: list_all_iff)
  with assms(1) show ?thesis by (simp add: isdigit_def)
qed

lemma isdigit_1005: "isdigit (ustr ''1005'')"
  by (rule isdigit_ascii) (simp_all add: c_isdigit_def)

text \<open>
  Claim C2. The comment in \<^verbatim>\<open>import_names\<close> gives the legacy layout as
  \<^verbatim>\<open>[empty, name, id, type]\<close>. A row of that layout has an empty first field, for which
  \<^verbatim>\<open>int(row[0]) if row[0] else None\<close> is \<^verbatim>\<open>None\<close> without any \<^verbatim>\<open>ValueError\<close>: the
  fallback is not tried and the row is rejected, although its third field is all digits
  and converts to the non-zero identity 1005.
\<close>

theorem legacy_layout_row_rejected:
  "names_row (start []) [[], ustr ''Adams'', ustr ''1005'', ustr ''last''] =
     \<lparr>table = [], count = 0, errors = 1, printed = []\<rparr> \<and>
   isdigit (ustr ''1005'') \<and> py_int (ustr ''1005'') = Inr 1005 \<and> sqlite_int 1005 \<and>
   py_int [] = Inl ValueError"
proof -
  have "names_row (start []) [[], ustr ''Adams'', ustr ''1005'', ustr ''last''] =
      (start [])\<lparr>errors := Suc (errors (start [] :: name_row import_state))\<rparr>"
    by (rule names_row_empty_id) simp_all
  also have "\<dots> = \<lparr>table = [], count = 0, errors = 1, printed = []\<rparr>"
    by (simp add: start_def)
  finally have e: "names_row (start []) [[], ustr ''Adams'', ustr ''1005'', ustr ''last''] =
     \<lparr>table = [], count = 0, errors = 1, printed = []\<rparr>" .
  show ?thesis
    by (rule conjI [OF e conjI [OF isdigit_1005 conjI [OF py_int_1005
      conjI [OF sqlite_int_1005 py_int_Nil]]]])
qed

section \<open>The claims about stored names and items at concrete rows\<close>

text \<open>
  Claim C9 at the row \<^verbatim>\<open>x,Adams,1005,last\<close>: the stored type is the text of the
  identity.
\<close>

theorem names_fallback_mapping_witness:
  "names_row (start []) [ustr ''x'', ustr ''Adams'', ustr ''1005'', ustr ''last''] =
     \<lparr>table = [\<lparr>name_id = 1005, name_name = ustr ''Adams'', name_type = Some (ustr ''1005''),
                name_gender = Some (ustr ''last''), name_description = None,
                name_notes = None\<rparr>],
      count = 1, errors = 0, printed = []\<rparr>"
proof -
  let ?row = "[ustr ''x'', ustr ''Adams'', ustr ''1005'', ustr ''last'']"
  have h: "2 < length ?row \<and> ?row ! 0 \<noteq> [] \<and> py_int (?row ! 0) = Inl ValueError \<and>
      isdigit (?row ! 2) \<and> py_int (?row ! 2) = Inr 1005 \<and> (1005 :: int) \<noteq> 0 \<and> sqlite_int 1005"
    using py_int_x isdigit_1005 py_int_1005 sqlite_int_1005 by simp
  from names_fallback_mapping [of ?row 1005 "start []" "[]" "[]"] h
  have "names_row (start []) ?row =
        (start [])\<lparr>table := insert_or_ignore name_id
               \<lparr>name_id = 1005, name_name = ?row ! 1, name_type = Some (?row ! 2),
                name_gender = (if 3 < length ?row then Some (?row ! 3) else None),
                name_description = None, name_notes = None\<rparr> (table (start [])),
           count := Suc (count (start [] :: name_row import_state))\<rparr>"
    by blast
  then show ?thesis by (simp add: start_def insert_or_ignore_Nil)
qed

text \<open>
  Claim C10 at an item row of ten fields: the stored category and modification time are
  the row's, and two different clock readings give the same state.
\<close>

theorem item_defaults_unreachable_witness:
  "item_type (items_values (ustr ''2025-06-30'') 7
      [ustr ''7'', ustr ''glimmer'', ustr ''Word'', ustr ''a faint light'', [], [], [], [], [],
       ustr ''2024-01-01'']) = ustr ''Word'' \<and>
   item_modified_at (items_values (ustr ''2025-06-30'') 7
      [ustr ''7'', ustr ''glimmer'', ustr ''Word'', ustr ''a faint light'', [], [], [], [], [],
       ustr ''2024-01-01'']) = ustr ''2024-01-01'' \<and>
   items_row (ustr ''2025-06-30'') (start [])
      [ustr ''7'', ustr ''glimmer'', ustr ''Word'', ustr ''a faint light'', [], [], [], [], [],
       ustr ''2024-01-01''] =
   items_row (ustr ''1999-12-31'') (start [])
      [ustr ''7'', ustr ''glimmer'', ustr ''Word'', ustr ''a faint light'', [], [], [], [], [],
       ustr ''2024-01-01'']"
proof -
  let ?row = "[ustr ''7'', ustr ''glimmer'', ustr ''Word'', ustr ''a faint light'', [], [], [], [], [],
       ustr ''2024-01-01'']"
  let ?now = "ustr ''2025-06-30''"
  have p: "py_int (?row ! 0) = Inr 7" using py_int_7 by simp
  have len: "10 \<le> length ?row" by simp
  have ins: "inserts (items_row ?now) ?row = [items_values ?now 7 ?row]"
    unfolding inserts_def
    by (subst items_row_accept [OF len p _ sqlite_int_7]) (simp_all add: start_def insert_or_ignore_Nil)
  note T = item_defaults_unreachable [of ?now "start []" ?row "ustr ''1999-12-31''" "\<lambda>i. []" "[]" "[]"
      "\<lambda>i. []"]
  from T have "\<forall>r\<in>set (inserts (items_row ?now) ?row).
      10 \<le> length ?row \<and> item_type r = ?row ! 2 \<and> item_modified_at r = ?row ! 9"
    by blast
  then have a: "item_type (items_values ?now 7 ?row) = ?row ! 2 \<and>
      item_modified_at (items_values ?now 7 ?row) = ?row ! 9"
    unfolding ins by simp
  from T have b: "items_row ?now (start []) ?row = items_row (ustr ''1999-12-31'') (start []) ?row"
    by blast
  from a have "item_type (items_values ?now 7 ?row) = ustr ''Word'' \<and>
      item_modified_at (items_values ?now 7 ?row) = ustr ''2024-01-01''"
    by simp
  with b show ?thesis by blast
qed

end
